theory Spec2Isabelle
  imports Complex_Main "HOL-Library.Sublist"
begin

section \<open>Text and character classes\<close>

text \<open>
  A Python \<^verbatim>\<open>str\<close> is a sequence of Unicode code points. A text is modelled as the list
  of its code points (natural numbers), so that the euro sign and the umlauts are one
  element each, as they are for \<^verbatim>\<open>re\<close>, \<^verbatim>\<open>strip\<close> and \<^verbatim>\<open>len\<close>.

  The character classes are those of Python on \<^verbatim>\<open>str\<close>: \<^verbatim>\<open>\s\<close> and
  \<^verbatim>\<open>str.strip()\<close> use the full list of white space code points, and \<^verbatim>\<open>\d\<close>,
  \<^verbatim>\<open>int\<close> and \<^verbatim>\<open>float\<close> accept every decimal digit of Unicode (general
  category Nd), not only the ASCII ones.
\<close>

type_synonym ustring = "nat list"

definition ascii :: "string \<Rightarrow> ustring" where
  "ascii s = map of_char s"

definition c_nl :: nat where "c_nl = 10"
definition c_space :: nat where "c_space = 32"
definition c_hash :: nat where "c_hash = 35"
definition c_lpar :: nat where "c_lpar = 40"
definition c_rpar :: nat where "c_rpar = 41"
definition c_star :: nat where "c_star = 42"
definition c_comma :: nat where "c_comma = 44"
definition c_minus :: nat where "c_minus = 45"
definition c_dot :: nat where "c_dot = 46"
definition c_slash :: nat where "c_slash = 47"
definition c_euro :: nat where "c_euro = 8364"

text \<open>
  The decimal digits of Unicode come in runs of ten consecutive code points with the
  values 0 to 9: the ASCII digits, the Arabic-Indic digits from U+0660, the fullwidth
  digits from U+FF10 and so on. \<open>digit_starts\<close> lists the first code point of every run
  (Unicode 14, 66 runs); \<open>digit_value\<close> is the value \<^verbatim>\<open>int\<close> gives the character, and
  \<open>is_digit\<close> is \<^verbatim>\<open>\d\<close>.
\<close>

definition digit_starts :: "nat list" where
  "digit_starts = [48, 1632, 1776, 1984, 2406, 2534, 2662, 2790, 2918, 3046, 3174, 3302, 3430,
     3558, 3664, 3792, 3872, 4160, 4240, 6112, 6160, 6470, 6608, 6784, 6800, 6992, 7088, 7232,
     7248, 42528, 43216, 43264, 43472, 43504, 43600, 44016, 65296, 66720, 68912, 69734, 69872,
     69942, 70096, 70384, 70736, 70864, 71248, 71360, 71472, 71904, 72016, 72784, 73040, 73120,
     92768, 92864, 93008, 120782, 120792, 120802, 120812, 120822, 123200, 123632, 125264,
     130032]"

definition digit_value :: "nat \<Rightarrow> nat option" where
  "digit_value c = map_option (\<lambda>s. c - s) (List.find (\<lambda>s. s \<le> c \<and> c < s + 10) digit_starts)"

definition is_digit :: "nat \<Rightarrow> bool" where
  "is_digit c = (digit_value c \<noteq> None)"

text \<open>\<^verbatim>\<open>\s\<close> on a \<^verbatim>\<open>str\<close> pattern, and the characters \<^verbatim>\<open>str.strip()\<close> removes.\<close>

definition is_space :: "nat \<Rightarrow> bool" where
  "is_space c = ((9 \<le> c \<and> c \<le> 13) \<or> (28 \<le> c \<and> c \<le> 32) \<or> c = 133 \<or> c = 160
     \<or> c = 5760 \<or> (8192 \<le> c \<and> c \<le> 8202) \<or> c = 8232 \<or> c = 8233 \<or> c = 8239
     \<or> c = 8287 \<or> c = 12288)"

text \<open>The letter class of the source: \<^verbatim>\<open>A-Z\<close>, \<^verbatim>\<open>a-z\<close>, the six umlauts (U+00C4, U+00D6,
  U+00DC, U+00E4, U+00F6, U+00FC) and the sharp s (U+00DF).\<close>

definition is_letter :: "nat \<Rightarrow> bool" where
  "is_letter c = ((65 \<le> c \<and> c \<le> 90) \<or> (97 \<le> c \<and> c \<le> 122)
     \<or> c = 196 \<or> c = 214 \<or> c = 220 \<or> c = 228 \<or> c = 246 \<or> c = 252 \<or> c = 223)"

text \<open>\<^verbatim>\<open>str.strip()\<close>: white space removed at both ends.\<close>

definition lstrip :: "ustring \<Rightarrow> ustring" where
  "lstrip s = dropWhile is_space s"

definition rstrip :: "ustring \<Rightarrow> ustring" where
  "rstrip s = rev (dropWhile is_space (rev s))"

definition strip :: "ustring \<Rightarrow> ustring" where
  "strip s = rstrip (lstrip s)"

section \<open>Category normalisation\<close>

text \<open>
  \<^verbatim>\<open>re.match(r'(?i)essen\s*\d+', cat_raw)\<close>: the pattern is tried at the start of the
  header only, and nothing is required after the first digit. Under \<^verbatim>\<open>(?i)\<close> a literal
  \<^verbatim>\<open>e\<close> matches e and E, \<^verbatim>\<open>n\<close> matches n and N, and \<^verbatim>\<open>s\<close> matches s, S and the
  long s (U+017F).
\<close>

definition ci_e :: "nat \<Rightarrow> bool" where "ci_e c = (c = 101 \<or> c = 69)"
definition ci_s :: "nat \<Rightarrow> bool" where "ci_s c = (c = 115 \<or> c = 83 \<or> c = 383)"
definition ci_n :: "nat \<Rightarrow> bool" where "ci_n c = (c = 110 \<or> c = 78)"

fun match_essen :: "ustring \<Rightarrow> bool" where
  "match_essen (a # b # c # d # e # rest) =
     (ci_e a \<and> ci_s b \<and> ci_s c \<and> ci_e d \<and> ci_n e \<and>
      (case dropWhile is_space rest of [] \<Rightarrow> False | x # _ \<Rightarrow> is_digit x))"
| "match_essen _ = False"

definition normalize_category :: "ustring \<Rightarrow> ustring" where
  "normalize_category cat_raw = (if match_essen cat_raw then ascii ''Hauptgericht'' else cat_raw)"

text \<open>The shape the pattern describes: the word, white space, a digit, anything.\<close>

definition essen_number :: "ustring \<Rightarrow> bool" where
  "essen_number s = (\<exists>a b c d e ws x rest. s = [a, b, c, d, e] @ ws @ x # rest \<and>
     ci_e a \<and> ci_s b \<and> ci_s c \<and> ci_e d \<and> ci_n e \<and> list_all is_space ws \<and> is_digit x)"

section \<open>Numbers: decimal digits, \<^verbatim>\<open>float\<close> and \<^verbatim>\<open>"{:.2f}".format\<close>\<close>

text \<open>\<^verbatim>\<open>str(n)\<close> for a natural number, and its inverse on digit strings (\<^verbatim>\<open>int\<close>).\<close>

fun dec_digits :: "nat \<Rightarrow> ustring" where
  "dec_digits n = (if n < 10 then [48 + n] else dec_digits (n div 10) @ [48 + n mod 10])"

definition digits_val :: "ustring \<Rightarrow> nat" where
  "digits_val ds = foldl (\<lambda>acc c. 10 * acc + (case digit_value c of Some v \<Rightarrow> v | None \<Rightarrow> 0)) 0 ds"

declare dec_digits.simps [simp del]

text \<open>
  A Python \<^verbatim>\<open>float\<close> is an IEEE binary64 value. A finite one is a sign, a mantissa
  \<open>n\<close> and an exponent \<open>e\<close>, of magnitude \<open>n * 2^e\<close>; the others are the two
  infinities and NaN. The sign is kept apart because \<^verbatim>\<open>format\<close> prints it also for
  a zero.
\<close>

datatype pyfloat = Fin bool nat int | Inf bool | NaN

fun bitlen :: "nat \<Rightarrow> nat" where
  "bitlen n = (if n = 0 then 0 else Suc (bitlen (n div 2)))"

declare bitlen.simps [simp del]

text \<open>The exponent \<open>e\<close> with \<open>2^e \<le> p/q < 2^(e+1)\<close> of a positive fraction.\<close>

definition binexp :: "nat \<Rightarrow> nat \<Rightarrow> int" where
  "binexp p q = (if q \<le> p then int (bitlen (p div q)) - 1
                 else - int (bitlen ((q + p - 1) div p - 1)))"

text \<open>The fraction \<open>p/q\<close> rounded to the nearest natural number, ties to the even one.\<close>

definition round_half_even :: "nat \<Rightarrow> nat \<Rightarrow> nat" where
  "round_half_even p q = (let f = p div q; r = p mod q in
     if 2 * r < q then f else if q < 2 * r then Suc f else if even f then f else Suc f)"

text \<open>
  The binary64 value nearest to the fraction \<open>p/q\<close>, ties to even: 53 bits of mantissa
  at the exponent of the fraction, which is never taken below that of the subnormal
  numbers; a rounded value of \<open>2^1024\<close> or more is an infinity.
\<close>

definition mk_float :: "bool \<Rightarrow> nat \<Rightarrow> nat \<Rightarrow> pyfloat" where
  "mk_float neg p q = (if p = 0 then Fin neg 0 0 else
     let e = max (binexp p q) (- 1022) - 52;
         n = (if 0 \<le> e then round_half_even p (q * 2 ^ nat e)
              else round_half_even (p * 2 ^ nat (- e)) q)
     in if 0 \<le> e \<and> 2 ^ 1024 \<le> n * 2 ^ nat e then Inf neg else Fin neg n e)"

text \<open>
  \<^verbatim>\<open>float(s)\<close> on a \<^verbatim>\<open>str\<close>: white space is stripped at both ends, where the four
  separators 0x1c to 0x1f do not count as white space (they are for \<^verbatim>\<open>str.strip\<close>, but
  \<^verbatim>\<open>float\<close> rejects them); decimal digits of Unicode are read by their value; an underscore is
  allowed only between two digits and is dropped; then an optional sign and either one
  of the words inf, infinity, nan in any letter case, or a decimal numeral with an
  optional fraction and an optional exponent, with at least one digit in the mantissa.
  Anything else raises, which is \<open>None\<close>.
\<close>

fun drop_underscores :: "nat \<Rightarrow> ustring \<Rightarrow> ustring option" where
  "drop_underscores prev [] = (if prev = 95 then None else Some [])"
| "drop_underscores prev (c # cs) =
     (if c = 95 then (if is_digit prev then drop_underscores c cs else None)
      else if prev = 95 \<and> \<not> is_digit c then None
      else map_option ((#) c) (drop_underscores c cs))"

definition lower_ascii :: "nat \<Rightarrow> nat" where
  "lower_ascii c = (if 65 \<le> c \<and> c \<le> 90 then c + 32 else c)"

text \<open>Mantissa digits, number of fraction digits, and the rest after the mantissa.\<close>

definition split_mantissa :: "ustring \<Rightarrow> (ustring \<times> ustring \<times> ustring) option" where
  "split_mantissa s = (let ip = takeWhile is_digit s; r1 = dropWhile is_digit s in
     case r1 of
       c # r2 \<Rightarrow> if c = c_dot
         then (let fp = takeWhile is_digit r2; r3 = dropWhile is_digit r2 in
               if ip = [] \<and> fp = [] then None else Some (ip, fp, r3))
         else (if ip = [] then None else Some (ip, [], r1))
     | [] \<Rightarrow> if ip = [] then None else Some (ip, [], []))"

text \<open>The exponent part: empty, or e/E, an optional sign and at least one digit.\<close>

definition parse_exponent :: "ustring \<Rightarrow> int option" where
  "parse_exponent s = (case s of [] \<Rightarrow> Some 0
     | c # r \<Rightarrow> if c = 101 \<or> c = 69 then
         (let neg = (case r of x # _ \<Rightarrow> x = c_minus | [] \<Rightarrow> False);
              ds = (case r of x # t \<Rightarrow> if x = c_minus \<or> x = 43 then t else r | [] \<Rightarrow> [])
          in if ds \<noteq> [] \<and> list_all is_digit ds
             then Some (if neg then - int (digits_val ds) else int (digits_val ds)) else None)
       else None)"

text \<open>The value of the numeral as a fraction: numerator and denominator.\<close>

definition parse_decimal :: "ustring \<Rightarrow> (nat \<times> nat) option" where
  "parse_decimal s = (case split_mantissa s of None \<Rightarrow> None
     | Some (ip, fp, r) \<Rightarrow> (case parse_exponent r of None \<Rightarrow> None
         | Some e \<Rightarrow>
            (let d = digits_val (ip @ fp); k = e - int (length fp) in
             Some (if 0 \<le> k then (d * 10 ^ nat k, 1) else (d, 10 ^ nat (- k))))))"

definition float_space :: "nat \<Rightarrow> bool" where
  "float_space c = (is_space c \<and> \<not> (28 \<le> c \<and> c \<le> 31))"

definition float_strip :: "ustring \<Rightarrow> ustring" where
  "float_strip s = rev (dropWhile float_space (rev (dropWhile float_space s)))"

definition py_float :: "ustring \<Rightarrow> pyfloat option" where
  "py_float s = (case drop_underscores 0 (float_strip s) of None \<Rightarrow> None
     | Some u \<Rightarrow>
        (let neg = (case u of x # _ \<Rightarrow> x = c_minus | [] \<Rightarrow> False);
             v = (case u of x # t \<Rightarrow> if x = c_minus \<or> x = 43 then t else u | [] \<Rightarrow> []);
             w = map lower_ascii v
         in if w = ascii ''inf'' \<or> w = ascii ''infinity'' then Some (Inf neg)
            else if w = ascii ''nan'' then Some NaN
            else map_option (\<lambda>(p, q). mk_float neg p q) (parse_decimal v)))"

text \<open>
  \<^verbatim>\<open>"{:.2f}".format(x)\<close>: the exact value of the float rounded to hundredths, ties to
  even, written with at least one integer digit and two fraction digits.
\<close>

definition two_digits :: "nat \<Rightarrow> ustring" where
  "two_digits n = [48 + n div 10, 48 + n mod 10]"

definition format_2f :: "pyfloat \<Rightarrow> ustring" where
  "format_2f x = (case x of
       Fin neg n e \<Rightarrow>
         (let h = (if 0 \<le> e then n * 2 ^ nat e * 100 else round_half_even (n * 100) (2 ^ nat (- e))) in
          (if neg then [c_minus] else []) @ dec_digits (h div 100) @ [c_dot] @ two_digits (h mod 100))
     | Inf neg \<Rightarrow> (if neg then [c_minus] else []) @ ascii ''inf''
     | NaN \<Rightarrow> ascii ''nan'')"

section \<open>Price normalisation\<close>

text \<open>
  \<^verbatim>\<open>re.sub(r'[^\d\.].*$', '', s)\<close>. The dot of the pattern stops at a line feed, and
  \<^verbatim>\<open>$\<close> holds at the end of the string or before a line feed that ends it. So the
  pattern matches at a character that is neither a digit nor a dot when the text after
  it has no line feed, or only one as its last character; everything from there on is
  removed (a final line feed left over by the first match is removed by a second one).
\<close>

definition digit_or_dot :: "nat \<Rightarrow> bool" where
  "digit_or_dot c = (is_digit c \<or> c = c_dot)"

definition tail_ok :: "ustring \<Rightarrow> bool" where
  "tail_ok cs = (let r = dropWhile (\<lambda>c. c \<noteq> c_nl) cs in r = [] \<or> r = [c_nl])"

fun sub_tail :: "ustring \<Rightarrow> ustring" where
  "sub_tail [] = []"
| "sub_tail (c # cs) = (if \<not> digit_or_dot c \<and> tail_ok cs then [] else c # sub_tail cs)"

definition normalize_price :: "ustring \<Rightarrow> pyfloat option" where
  "normalize_price s = (if s = [] then None else
     let s1 = filter (\<lambda>c. c \<noteq> c_space) (filter (\<lambda>c. c \<noteq> c_euro) (strip s));
         s2 = map (\<lambda>c. if c = c_comma then c_dot else c) s1;
         s3 = sub_tail s2
     in py_float s3)"

section \<open>Dates\<close>

text \<open>
  \<^verbatim>\<open>datetime.strptime(s, "%d.%m.%Y")\<close>. The format is turned into a pattern that has to
  match the whole string: a day field (30, 31, 10 to 29, 01 to 09, 1 to 9, or a space
  and 1 to 9), a dot, a month field (10 to 12, 01 to 09, 1 to 9), a dot and exactly four
  digits. Neither field can hold a dot, so the fields are the pieces between the dots.
  Where the pattern says \<^verbatim>\<open>\d\<close> (the second digit of 10 to 29, the year) any decimal
  digit of Unicode is accepted and \<^verbatim>\<open>int\<close> reads it; the other digits are written out in
  the pattern and are ASCII. The date is then checked: the year is at least 1 and the
  day exists in the month.
\<close>

definition day_field :: "ustring \<Rightarrow> nat option" where
  "day_field f = (case f of
       [a] \<Rightarrow> if 49 \<le> a \<and> a \<le> 57 then Some (a - 48) else None
     | [a, b] \<Rightarrow>
         if a = 51 \<and> (b = 48 \<or> b = 49) then Some (30 + (b - 48))
         else if (a = 49 \<or> a = 50) \<and> is_digit b then Some (digits_val [a, b])
         else if (a = 48 \<or> a = 32) \<and> 49 \<le> b \<and> b \<le> 57 then Some (b - 48)
         else None
     | _ \<Rightarrow> None)"

definition month_field :: "ustring \<Rightarrow> nat option" where
  "month_field f = (case f of
       [a] \<Rightarrow> if 49 \<le> a \<and> a \<le> 57 then Some (a - 48) else None
     | [a, b] \<Rightarrow>
         if a = 49 \<and> 48 \<le> b \<and> b \<le> 50 then Some (10 + (b - 48))
         else if a = 48 \<and> 49 \<le> b \<and> b \<le> 57 then Some (b - 48)
         else None
     | _ \<Rightarrow> None)"

definition year_field :: "ustring \<Rightarrow> nat option" where
  "year_field f = (if length f = 4 \<and> list_all is_digit f then Some (digits_val f) else None)"

definition is_leap :: "nat \<Rightarrow> bool" where
  "is_leap y = (y mod 4 = 0 \<and> (y mod 100 \<noteq> 0 \<or> y mod 400 = 0))"

definition days_in_month :: "nat \<Rightarrow> nat \<Rightarrow> nat" where
  "days_in_month y m = (if m = 2 then (if is_leap y then 29 else 28)
     else if m = 4 \<or> m = 6 \<or> m = 9 \<or> m = 11 then 30 else 31)"

record pydate =
  year :: nat
  month :: nat
  day :: nat

definition strptime :: "ustring \<Rightarrow> pydate option" where
  "strptime s = (let f1 = takeWhile (\<lambda>c. c \<noteq> c_dot) s; r1 = dropWhile (\<lambda>c. c \<noteq> c_dot) s in
     case r1 of [] \<Rightarrow> None
     | _ # s2 \<Rightarrow> (let f2 = takeWhile (\<lambda>c. c \<noteq> c_dot) s2; r2 = dropWhile (\<lambda>c. c \<noteq> c_dot) s2 in
         case r2 of [] \<Rightarrow> None
         | _ # f3 \<Rightarrow> (case (day_field f1, month_field f2, year_field f3) of
               (Some d, Some m, Some y) \<Rightarrow>
                  if 1 \<le> y \<and> d \<le> days_in_month y m
                  then Some \<lparr>year = y, month = m, day = d\<rparr> else None
             | _ \<Rightarrow> None)))"

text \<open>\<^verbatim>\<open>date.isoformat()\<close>: \<^verbatim>\<open>"%04d-%02d-%02d"\<close>.\<close>

definition pad_left :: "nat \<Rightarrow> ustring \<Rightarrow> ustring" where
  "pad_left n s = replicate (n - length s) 48 @ s"

definition isoformat :: "pydate \<Rightarrow> ustring" where
  "isoformat d = pad_left 4 (dec_digits (year d)) @ [c_minus] @ pad_left 2 (dec_digits (month d))
     @ [c_minus] @ pad_left 2 (dec_digits (day d))"

section \<open>Year inference\<close>

text \<open>
  The pieces of the two date patterns. \<^verbatim>\<open>\d{1,2}\.\<close> takes two digits when a dot
  follows them and one digit when the dot follows that one; no other split can match.
  Each function returns the matched text and the rest.
\<close>

fun digits12_dot :: "ustring \<Rightarrow> (ustring \<times> ustring) option" where
  "digits12_dot (a # b # r) =
     (if is_digit a \<and> b = c_dot then Some ([a, b], r)
      else if is_digit a \<and> is_digit b then
        (case r of c # r' \<Rightarrow> if c = c_dot then Some ([a, b, c], r') else None | [] \<Rightarrow> None)
      else None)"
| "digits12_dot _ = None"

text \<open>\<^verbatim>\<open>\d{1,2}\.\d{1,2}\.\<close>\<close>

definition day_month_dot :: "ustring \<Rightarrow> (ustring \<times> ustring) option" where
  "day_month_dot s = (case digits12_dot s of None \<Rightarrow> None
     | Some (g1, r1) \<Rightarrow> (case digits12_dot r1 of None \<Rightarrow> None
         | Some (g2, r2) \<Rightarrow> Some (g1 @ g2, r2)))"

text \<open>\<^verbatim>\<open>\d{1,2}\.\d{1,2}\.\d{4}\<close>\<close>

definition date_with_year :: "ustring \<Rightarrow> (ustring \<times> ustring) option" where
  "date_with_year s = (case day_month_dot s of None \<Rightarrow> None
     | Some (g, r) \<Rightarrow> if 4 \<le> length r \<and> list_all is_digit (take 4 r)
         then Some (g @ take 4 r, drop 4 r) else None)"

text \<open>
  \<^verbatim>\<open>(\d{1,2}\.\d{1,2}\.\d{4})\s*-\s*(\d{1,2}\.\d{1,2}\.\d{4})\<close> tried at the start of
  \<open>s\<close>; the result is group 1.
\<close>

definition range_at :: "ustring \<Rightarrow> ustring option" where
  "range_at s = (case date_with_year s of None \<Rightarrow> None
     | Some (g1, r1) \<Rightarrow> (case dropWhile is_space r1 of [] \<Rightarrow> None
         | c # r2 \<Rightarrow> if c = c_minus then
             (case date_with_year (dropWhile is_space r2) of None \<Rightarrow> None
              | Some _ \<Rightarrow> Some g1)
           else None))"

text \<open>
  What the patterns describe: a day or month field of one or two digits, a date with a
  year of four digits, and a text that starts with a date range whose first date is
  \<open>g\<close>.
\<close>

definition dm_field :: "ustring \<Rightarrow> bool" where
  "dm_field f = (f \<noteq> [] \<and> length f \<le> 2 \<and> list_all is_digit f)"

definition full_date :: "ustring \<Rightarrow> bool" where
  "full_date g = (\<exists>d m y. g = d @ [c_dot] @ m @ [c_dot] @ y \<and> dm_field d \<and> dm_field m \<and>
     length y = 4 \<and> list_all is_digit y)"

definition range_prefix :: "ustring \<Rightarrow> ustring \<Rightarrow> bool" where
  "range_prefix s g = (\<exists>ws1 ws2 g2 post. s = g @ ws1 @ [c_minus] @ ws2 @ g2 @ post \<and>
     full_date g \<and> full_date g2 \<and> list_all is_space ws1 \<and> list_all is_space ws2)"

text \<open>\<^verbatim>\<open>re.search\<close>: the match at the leftmost position where the pattern matches.\<close>

fun search_range :: "ustring \<Rightarrow> ustring option" where
  "search_range [] = None"
| "search_range (c # cs) =
     (case range_at (c # cs) of Some g \<Rightarrow> Some g | None \<Rightarrow> search_range cs)"

text \<open>\<open>now_year\<close> is \<^verbatim>\<open>datetime.now().year\<close>, read from the clock by the source.\<close>

definition extract_year_from_text :: "nat \<Rightarrow> ustring \<Rightarrow> nat" where
  "extract_year_from_text now_year text = (case search_range text of
       Some g \<Rightarrow> (case strptime g of Some d \<Rightarrow> year d | None \<Rightarrow> now_year)
     | None \<Rightarrow> now_year)"

section \<open>Menu extractor: one meal entry\<close>

record meal =
  category :: ustring
  name :: ustring
  meal_notes :: "ustring list"
  allergens :: "ustring list"
  prices :: "(ustring \<times> pyfloat option) list"

text \<open>
  \<^verbatim>\<open>str.splitlines()\<close>: the text is cut at every line boundary (line feed, carriage
  return, carriage return and line feed as one, vertical tab, form feed, the three
  separators 0x1c to 0x1e, next line 0x85, and the line and paragraph separators); a
  boundary at the very end opens no further line.
\<close>

definition is_linebreak :: "nat \<Rightarrow> bool" where
  "is_linebreak c = ((10 \<le> c \<and> c \<le> 13) \<or> (28 \<le> c \<and> c \<le> 30) \<or> c = 133
     \<or> c = 8232 \<or> c = 8233)"

fun splitlines :: "ustring \<Rightarrow> ustring list" where
  "splitlines [] = []"
| "splitlines [c] = (if is_linebreak c then [[]] else [[c]])"
| "splitlines (c # x # cs) =
     (if c = 13 \<and> x = 10 then [] # splitlines cs
      else if is_linebreak c then [] # splitlines (x # cs)
      else (case splitlines (x # cs) of [] \<Rightarrow> [[c]] | l # ls \<Rightarrow> (c # l) # ls))"

text \<open>\<^verbatim>\<open>[ln.strip() for ln in body.splitlines() if ln.strip()!='']\<close>\<close>

definition body_lines :: "ustring \<Rightarrow> ustring list" where
  "body_lines body = filter (\<lambda>l. l \<noteq> []) (map strip (splitlines body))"

text \<open>
  \<^verbatim>\<open>re.search(r'\d+[,\.]\d+\s*E', ln)\<close>, where E stands for the euro sign (U+20AC). At
  one position: the longest run of digits,
  a comma or a dot, the longest run of digits, white space, the euro sign. A shorter run
  of digits cannot match, since what follows it is a digit.
\<close>

definition price_at :: "ustring \<Rightarrow> bool" where
  "price_at s = (takeWhile is_digit s \<noteq> [] \<and>
     (case dropWhile is_digit s of [] \<Rightarrow> False
      | c # r \<Rightarrow> (c = c_comma \<or> c = c_dot) \<and> takeWhile is_digit r \<noteq> [] \<and>
          (case dropWhile is_space (dropWhile is_digit r) of [] \<Rightarrow> False
           | e # _ \<Rightarrow> e = c_euro)))"

fun has_price :: "ustring \<Rightarrow> bool" where
  "has_price [] = False"
| "has_price (c # cs) = (price_at (c # cs) \<or> has_price cs)"

text \<open>What the pattern describes: somewhere in the line an amount and the euro sign.\<close>

definition amount_euro :: "ustring \<Rightarrow> bool" where
  "amount_euro l = (\<exists>pre d1 sep d2 ws post.
     l = pre @ d1 @ [sep] @ d2 @ ws @ [c_euro] @ post \<and>
     d1 \<noteq> [] \<and> list_all is_digit d1 \<and> (sep = c_comma \<or> sep = c_dot) \<and>
     d2 \<noteq> [] \<and> list_all is_digit d2 \<and> list_all is_space ws)"

text \<open>The loop over \<^verbatim>\<open>lines[1:6]\<close> that stops at the first match.\<close>

definition find_price_line :: "ustring list \<Rightarrow> ustring option" where
  "find_price_line lines = List.find has_price (take 5 (drop 1 lines))"

text \<open>
  \<^verbatim>\<open>re.findall(r'\(([^)]+)\)', s)\<close>: at an opening parenthesis the group is the text
  up to the next closing one, which must exist and must not follow at once; the scan
  goes on behind the closing parenthesis. Where that fails the scan moves one character
  on.
\<close>

function find_labels :: "ustring \<Rightarrow> ustring list" where
  "find_labels [] = []"
| "find_labels (c # cs) =
     (if c = c_lpar \<and> takeWhile (\<lambda>x. x \<noteq> c_rpar) cs \<noteq> [] \<and> dropWhile (\<lambda>x. x \<noteq> c_rpar) cs \<noteq> []
      then takeWhile (\<lambda>x. x \<noteq> c_rpar) cs # find_labels (tl (dropWhile (\<lambda>x. x \<noteq> c_rpar) cs))
      else find_labels cs)"
  by pat_completeness auto
termination
proof (relation "measure length")
  fix c :: nat and cs :: ustring
  have "length (dropWhile (\<lambda>x. x \<noteq> c_rpar) cs) \<le> length cs"
    by (rule length_dropWhile_le)
  then have "length (tl (dropWhile (\<lambda>x. x \<noteq> c_rpar) cs)) \<le> length cs"
    by simp
  then show "(tl (dropWhile (\<lambda>x. x \<noteq> c_rpar) cs), c # cs) \<in> measure length"
    by simp
qed simp_all

declare find_labels.simps [simp del]

text \<open>\<^verbatim>\<open>re.split\<close> on a single separator character: all pieces, empty ones too.\<close>

fun split_on :: "(nat \<Rightarrow> bool) \<Rightarrow> ustring \<Rightarrow> ustring list" where
  "split_on sep [] = [[]]"
| "split_on sep (c # cs) =
     (if sep c then [] # split_on sep cs
      else (case split_on sep cs of [] \<Rightarrow> [[c]] | p # ps \<Rightarrow> (c # p) # ps))"

definition slash_or_comma :: "nat \<Rightarrow> bool" where
  "slash_or_comma c = (c = c_slash \<or> c = c_comma)"

text \<open>The stripped, non-empty pieces of a group split at \<^verbatim>\<open>[\/,]\<close>.\<close>

definition label_parts :: "ustring \<Rightarrow> ustring list" where
  "label_parts l = filter (\<lambda>p. p \<noteq> []) (map strip (split_on slash_or_comma l))"

text \<open>
  The loop over the groups: a group with a letter of the letter class adds its
  parts to the notes, any other group adds them to the allergen codes.
\<close>

definition has_letter :: "ustring \<Rightarrow> bool" where
  "has_letter l = list_ex is_letter l"

fun classify_labels :: "ustring list \<Rightarrow> ustring list \<times> ustring list" where
  "classify_labels [] = ([], [])"
| "classify_labels (l # ls) = (let (ns, cs) = classify_labels ls in
     if has_letter l then (label_parts l @ ns, cs) else (ns, label_parts l @ cs))"

text \<open>\<^verbatim>\<open>re.match(r'^[\d,\s\/\(\)]+$', ln)\<close>: every character is of the class, and there
  is at least one (a final line feed, which \<^verbatim>\<open>$\<close> tolerates, is of the class too).\<close>

definition structural_char :: "nat \<Rightarrow> bool" where
  "structural_char c = (is_digit c \<or> c = c_comma \<or> is_space c \<or> c = c_slash \<or> c = c_lpar \<or> c = c_rpar)"

definition structural_line :: "ustring \<Rightarrow> bool" where
  "structural_line l = (l \<noteq> [] \<and> list_all structural_char l)"

text \<open>The loop over \<^verbatim>\<open>lines[1:]\<close> that appends the residual lines to the notes.\<close>

fun add_residual :: "ustring option \<Rightarrow> ustring list \<Rightarrow> ustring list \<Rightarrow> ustring list" where
  "add_residual price_line ns [] = ns"
| "add_residual price_line ns (l # ls) =
     (if Some l = price_line then add_residual price_line ns ls
      else if structural_line l then add_residual price_line ns ls
      else if l \<notin> set ns then add_residual price_line (ns @ [l]) ls
      else add_residual price_line ns ls)"

text \<open>\<^verbatim>\<open>[p.strip() for p in re.split(r'\/', price_line) if p.strip()!='']\<close>\<close>

definition price_parts :: "ustring \<Rightarrow> ustring list" where
  "price_parts price_line = filter (\<lambda>p. p \<noteq> []) (map strip (split_on (\<lambda>c. c = c_slash) price_line))"

text \<open>
  The three price variables and the dictionary built from them, whose keys are inserted
  in the order students, employees, others; iteration over a dictionary follows the
  insertion order, so the dictionary is an association list.
\<close>

definition part_price :: "ustring list \<Rightarrow> nat \<Rightarrow> pyfloat option" where
  "part_price parts i = (if i < length parts then normalize_price (parts ! i) else None)"

definition parse_prices :: "ustring option \<Rightarrow> (ustring \<times> pyfloat option) list" where
  "parse_prices price_line =
     (let parts = (case price_line of None \<Rightarrow> [] | Some pl \<Rightarrow> price_parts pl) in
      [(ascii ''students'', part_price parts 0),
       (ascii ''employees'', part_price parts 1),
       (ascii ''others'', part_price parts 2)])"

text \<open>
  The body of the loop over the entries of a day; \<open>None\<close> is \<^verbatim>\<open>continue\<close>. The header
  pattern \<^verbatim>\<open>^([^\n]+)\n+\<close> needs a first line that is not empty and a line feed after
  it, and ends behind the run of line feeds.
\<close>

definition not_nl :: "nat \<Rightarrow> bool" where
  "not_nl c = (c \<noteq> c_nl)"

definition parse_entry :: "ustring \<Rightarrow> meal option" where
  "parse_entry ent0 = (let ent = strip ent0 in
     if ent = [] then None
     else if takeWhile not_nl ent = [] \<or> dropWhile not_nl ent = [] then None
     else
       let cat_raw = strip (takeWhile not_nl ent);
           body = strip (dropWhile (\<lambda>c. c = c_nl) (dropWhile not_nl ent));
           cat = normalize_category cat_raw;
           lines = body_lines body
       in if lines = [] then None
          else
            let price_line = find_price_line lines;
                labels = find_labels (cat_raw @ [c_space] @ body);
                ann = classify_labels labels
            in Some \<lparr>category = cat, name = hd lines,
                      meal_notes = add_residual price_line (fst ann) (tl lines),
                      allergens = snd ann,
                      prices = parse_prices price_line\<rparr>)"

text \<open>The local variables of the loop body, as functions of the entry.\<close>

definition cat_raw_of :: "ustring \<Rightarrow> ustring" where
  "cat_raw_of ent0 = strip (takeWhile not_nl (strip ent0))"

definition body_of :: "ustring \<Rightarrow> ustring" where
  "body_of ent0 = strip (dropWhile (\<lambda>c. c = c_nl) (dropWhile not_nl (strip ent0)))"

definition lines_of :: "ustring \<Rightarrow> ustring list" where
  "lines_of ent0 = body_lines (body_of ent0)"

definition labels_of :: "ustring \<Rightarrow> ustring list" where
  "labels_of ent0 = find_labels (cat_raw_of ent0 @ [c_space] @ body_of ent0)"

section \<open>Menu extractor: days\<close>

record day_rec =
  date :: "ustring option"
  weekday :: ustring
  meals :: "meal list"

text \<open>
  \<^verbatim>\<open>####\s*(L+),\s*(\d{1,2}\.\d{1,2}\.)\<close>, where L stands for the letter class, tried at
  the start of \<open>s\<close>:
  the two groups and the text behind the match.
\<close>

fun header_at :: "ustring \<Rightarrow> (ustring \<times> ustring \<times> ustring) option" where
  "header_at (h1 # h2 # h3 # h4 # r) =
     (if h1 = c_hash \<and> h2 = c_hash \<and> h3 = c_hash \<and> h4 = c_hash then
        (let r1 = dropWhile is_space r; w = takeWhile is_letter r1 in
         if w = [] then None
         else (case dropWhile is_letter r1 of [] \<Rightarrow> None
           | c # r2 \<Rightarrow> if c = c_comma then
               (case day_month_dot (dropWhile is_space r2) of None \<Rightarrow> None
                | Some (g, r3) \<Rightarrow> Some (w, g, r3))
             else None))
      else None)"
| "header_at _ = None"

text \<open>
  \<^verbatim>\<open>pattern.finditer(text)\<close> together with the slices \<^verbatim>\<open>text[m.end():next.start()]\<close>:
  the text before the first header, and for every header its two groups and the text up
  to the next header or to the end. The search for the next header starts behind the
  match.
\<close>

lemma digits12_dot_shorter: "digits12_dot s = Some (g, r) \<Longrightarrow> length r < length s"
  by (cases s rule: digits12_dot.cases) (auto split: if_splits list.splits)

lemma day_month_dot_shorter: "day_month_dot s = Some (g, r) \<Longrightarrow> length r < length s"
  unfolding day_month_dot_def
  by (auto split: option.splits dest!: digits12_dot_shorter)

lemma header_at_shorter: "header_at s = Some (w, g, r) \<Longrightarrow> length r < length s"
proof (cases s rule: header_at.cases)
  case (1 h1 h2 h3 h4 t)
  assume h: "header_at s = Some (w, g, r)"
  from h 1 obtain c r2 where d: "dropWhile is_letter (dropWhile is_space t) = c # r2"
    and dm: "day_month_dot (dropWhile is_space r2) = Some (g, r)"
    by (auto simp: Let_def split: if_splits list.splits option.splits)
  have "length r < length (dropWhile is_space r2)"
    using dm by (rule day_month_dot_shorter)
  also have "\<dots> \<le> length r2" by (rule length_dropWhile_le)
  also have "\<dots> < length (dropWhile is_letter (dropWhile is_space t))" using d by simp
  also have "\<dots> \<le> length (dropWhile is_space t)" by (rule length_dropWhile_le)
  also have "\<dots> \<le> length t" by (rule length_dropWhile_le)
  finally show ?thesis using 1 by simp
qed simp_all

function split_days :: "ustring \<Rightarrow> ustring \<times> (ustring \<times> ustring \<times> ustring) list" where
  "split_days [] = ([], [])"
| "split_days (c # cs) = (case header_at (c # cs) of
       Some (w, g, r) \<Rightarrow> (case split_days r of (blk, ds) \<Rightarrow> ([], (w, g, blk) # ds))
     | None \<Rightarrow> (case split_days cs of (pre, ds) \<Rightarrow> (c # pre, ds)))"
  by pat_completeness auto
termination
  by (relation "measure length") (auto dest: header_at_shorter)

declare split_days.simps [simp del]

text \<open>
  \<^verbatim>\<open>\n\s*\*\s*#####\s*\<close> tried at the start of \<open>s\<close>: the text behind the match.
\<close>

definition marker_at :: "ustring \<Rightarrow> ustring option" where
  "marker_at s = (case s of [] \<Rightarrow> None
     | c # r \<Rightarrow> if c = c_nl then
         (case dropWhile is_space r of [] \<Rightarrow> None
          | x # r2 \<Rightarrow> if x = c_star then
              (let r3 = dropWhile is_space r2 in
               if take 5 r3 = replicate 5 c_hash then Some (dropWhile is_space (drop 5 r3)) else None)
            else None)
       else None)"

lemma marker_at_shorter: "marker_at s = Some r \<Longrightarrow> length r < length s"
proof -
  assume m: "marker_at s = Some r"
  then obtain t x r2 where s: "s = c_nl # t" and d: "dropWhile is_space t = x # r2"
    and r: "r = dropWhile is_space (drop 5 (dropWhile is_space r2))"
    by (auto simp: marker_at_def Let_def split: list.splits if_splits)
  have "length r \<le> length (drop 5 (dropWhile is_space r2))"
    unfolding r by (rule length_dropWhile_le)
  also have "\<dots> \<le> length (dropWhile is_space r2)" by simp
  also have "\<dots> \<le> length r2" by (rule length_dropWhile_le)
  also have "\<dots> < length (dropWhile is_space t)" using d by simp
  also have "\<dots> \<le> length t" by (rule length_dropWhile_le)
  finally show ?thesis using s by simp
qed

text \<open>\<^verbatim>\<open>re.split(r'\n\s*\*\s*#####\s*', block)\<close>: the pieces between the matches.\<close>

function split_entries :: "ustring \<Rightarrow> ustring list" where
  "split_entries [] = [[]]"
| "split_entries (c # cs) = (case marker_at (c # cs) of
       Some r \<Rightarrow> [] # split_entries r
     | None \<Rightarrow> (case split_entries cs of [] \<Rightarrow> [[c]] | p # ps \<Rightarrow> (c # p) # ps))"
  by pat_completeness auto
termination
  by (relation "measure length") (auto dest: marker_at_shorter)

declare split_entries.simps [simp del]

text \<open>The body of the loop over the headers, and the whole extractor.\<close>

definition parse_day :: "nat \<Rightarrow> ustring \<times> ustring \<times> ustring \<Rightarrow> day_rec" where
  "parse_day yr h = (case h of (w, g, blk) \<Rightarrow>
     \<lparr>date = map_option isoformat (strptime (strip g @ dec_digits yr)),
      weekday = strip w,
      meals = List.map_filter parse_entry (split_entries (strip blk))\<rparr>)"

definition parse_text_blocks :: "nat \<Rightarrow> ustring \<Rightarrow> day_rec list" where
  "parse_text_blocks now_year text =
     map (parse_day (extract_year_from_text now_year text)) (snd (split_days text))"

section \<open>Feed builder\<close>

text \<open>
  The element tree of \<^verbatim>\<open>xml.etree.ElementTree\<close>: a tag, the attributes in insertion
  order, the text, the children.
\<close>

datatype xml = Element ustring "(ustring \<times> ustring) list" "ustring option" "xml list"

fun xml_tag :: "xml \<Rightarrow> ustring" where "xml_tag (Element t a x c) = t"
fun xml_attrib :: "xml \<Rightarrow> (ustring \<times> ustring) list" where "xml_attrib (Element t a x c) = a"
fun xml_text :: "xml \<Rightarrow> ustring option" where "xml_text (Element t a x c) = x"
fun xml_children :: "xml \<Rightarrow> xml list" where "xml_children (Element t a x c) = c"

definition NAMESPACE :: ustring where
  "NAMESPACE = ascii ''http://openmensa.org/open-mensa-v2''"

text \<open>\<^verbatim>\<open>ET.QName(NAMESPACE, tag)\<close>: the tag in braces notation.\<close>

definition qname :: "string \<Rightarrow> ustring" where
  "qname t = ascii ''{'' @ NAMESPACE @ ascii ''}'' @ ascii t"

text \<open>\<^verbatim>\<open>groups.setdefault(m["category"], []).append(m)\<close> on an insertion-ordered
  dictionary.\<close>

fun group_add :: "(ustring \<times> meal list) list \<Rightarrow> meal \<Rightarrow> (ustring \<times> meal list) list" where
  "group_add [] m = [(category m, [m])]"
| "group_add ((k, ms) # g) m =
     (if k = category m then (k, ms @ [m]) # g else (k, ms) # group_add g m)"

definition group_meals :: "meal list \<Rightarrow> (ustring \<times> meal list) list" where
  "group_meals ms = foldl group_add [] ms"

text \<open>The loop over \<^verbatim>\<open>m["prices"].items()\<close>, which skips a value that is \<^verbatim>\<open>None\<close>.\<close>

definition price_elements :: "(ustring \<times> pyfloat option) list \<Rightarrow> xml list" where
  "price_elements ps = List.map_filter (\<lambda>(role, v). case v of None \<Rightarrow> None
     | Some x \<Rightarrow> Some (Element (qname ''price'') [(ascii ''role'', role)] (Some (format_2f x)) [])) ps"

definition meal_element :: "meal \<Rightarrow> xml" where
  "meal_element m = Element (qname ''meal'') [] None
     ([Element (qname ''name'') [] (Some (name m)) []]
      @ map (\<lambda>n. Element (qname ''note'') [] (Some n) []) (meal_notes m)
      @ map (\<lambda>c. Element (qname ''note'') [] (Some (ascii ''Allergene: '' @ c)) []) (allergens m)
      @ price_elements (prices m))"

definition category_element :: "ustring \<times> meal list \<Rightarrow> xml" where
  "category_element g = Element (qname ''category'') [(ascii ''name'', fst g)] None
     (map meal_element (snd g))"

text \<open>\<^verbatim>\<open>if not d["date"]: continue\<close>: a day without a date, or with an empty one, is
  skipped.\<close>

definition dated :: "day_rec \<Rightarrow> bool" where
  "dated d = (case date d of None \<Rightarrow> False | Some s \<Rightarrow> s \<noteq> [])"

definition day_element :: "day_rec \<Rightarrow> xml" where
  "day_element d = Element (qname ''day'') [(ascii ''date'', the (date d))] None
     (map category_element (group_meals (meals d)))"

definition build_tree :: "ustring \<Rightarrow> day_rec list \<Rightarrow> xml" where
  "build_tree canteen_name days =
     Element (qname ''openmensa'') [(ascii ''version'', ascii ''2.1'')] None
       [Element (qname ''canteen'') [] None
          (Element (qname ''name'') [] (Some canteen_name) []
           # map day_element (filter dated days))]"

text \<open>
  \<^verbatim>\<open>ET.tostring(root, encoding="utf-8", xml_declaration=True).decode('utf-8')\<close> is the
  library's serialiser; it is a parameter of the model, a function of the tree.
\<close>

definition build_openmensa_xml :: "(xml \<Rightarrow> ustring) \<Rightarrow> ustring \<Rightarrow> day_rec list \<Rightarrow> ustring" where
  "build_openmensa_xml tostring canteen_name days = tostring (build_tree canteen_name days)"

section \<open>Serialisation\<close>

text \<open>
  \<^verbatim>\<open>ET.tostring(root, encoding="utf-8", xml_declaration=True).decode('utf-8')\<close> on a tree
  whose tags lie in the namespace registered with the empty prefix and whose attribute
  names are plain, as they are in the feed: the declaration line, then the elements.
  Tags are written without prefix and the root declares the namespace before its
  attributes. In text the characters \<^verbatim>\<open>&\<close>, \<^verbatim>\<open><\<close>, \<^verbatim>\<open>>\<close> are escaped, in attribute values
  also the double quote, carriage return, line feed and tab; a surrogate code point,
  which UTF-8 cannot encode, becomes a character reference. An element without children
  and without text (or with the empty text) is written in the short form.
\<close>

definition is_surrogate :: "nat \<Rightarrow> bool" where
  "is_surrogate c = (55296 \<le> c \<and> c \<le> 57343)"

definition charref :: "nat \<Rightarrow> ustring" where
  "charref c = ascii ''&#'' @ dec_digits c @ ascii '';''"

definition escape_cdata :: "ustring \<Rightarrow> ustring" where
  "escape_cdata s = concat (map (\<lambda>c.
     if c = 38 then ascii ''&amp;'' else if c = 60 then ascii ''&lt;''
     else if c = 62 then ascii ''&gt;'' else if is_surrogate c then charref c else [c]) s)"

definition escape_attrib :: "ustring \<Rightarrow> ustring" where
  "escape_attrib s = concat (map (\<lambda>c.
     if c = 38 then ascii ''&amp;'' else if c = 60 then ascii ''&lt;''
     else if c = 62 then ascii ''&gt;'' else if c = 34 then ascii ''&quot;''
     else if c = 13 then ascii ''&#13;'' else if c = 10 then ascii ''&#10;''
     else if c = 9 then ascii ''&#09;'' else if is_surrogate c then charref c else [c]) s)"

definition quoted :: "ustring \<Rightarrow> ustring" where
  "quoted s = [34] @ s @ [34]"

definition local_tag :: "ustring \<Rightarrow> ustring" where
  "local_tag t = (if take (length NAMESPACE + 2) t = ascii ''{'' @ NAMESPACE @ ascii ''}''
     then drop (length NAMESPACE + 2) t else t)"

fun serialize :: "bool \<Rightarrow> xml \<Rightarrow> ustring" where
  "serialize is_root (Element t a x c) =
     ascii ''<'' @ local_tag t
     @ (if is_root then ascii '' xmlns='' @ quoted (escape_attrib NAMESPACE) else [])
     @ concat (map (\<lambda>(k, v). [c_space] @ k @ ascii ''='' @ quoted (escape_attrib v)) a)
     @ (if (x \<noteq> None \<and> x \<noteq> Some []) \<or> c \<noteq> []
        then ascii ''>'' @ (case x of None \<Rightarrow> [] | Some txt \<Rightarrow> escape_cdata txt)
             @ concat (map (serialize False) c) @ ascii ''</'' @ local_tag t @ ascii ''>''
        else ascii '' />'')"

definition et_tostring :: "xml \<Rightarrow> ustring" where
  "et_tostring t = ascii ''<?xml version='' @ [39] @ ascii ''1.0'' @ [39] @ ascii '' encoding=''
     @ [39] @ ascii ''utf-8'' @ [39] @ ascii ''?>'' @ [c_nl] @ serialize True t"

section \<open>The feed as the specification describes it\<close>

text \<open>
  A second definition of the tree, from the words of the specification (section 4.3):
  any Day lacking a date is omitted; within each retained Day the meals are grouped by
  category, preserving first-seen category order, and each group becomes one category
  block containing its meals in original order; per meal the name, every note, every
  allergen code prefixed with a fixed label, and each present price role as a
  two-decimal amount tagged with its role. It is compared with \<open>build_tree\<close> below.
\<close>

definition first_seen :: "'a list \<Rightarrow> 'a list" where
  "first_seen xs = rev (remdups (rev xs))"

definition spec_groups :: "meal list \<Rightarrow> (ustring \<times> meal list) list" where
  "spec_groups ms = map (\<lambda>c. (c, filter (\<lambda>m. category m = c) ms)) (first_seen (map category ms))"

definition spec_meal_block :: "ustring \<Rightarrow> meal \<Rightarrow> xml" where
  "spec_meal_block label m = Element (qname ''meal'') [] None
     (Element (qname ''name'') [] (Some (name m)) []
      # map (\<lambda>n. Element (qname ''note'') [] (Some n) []) (meal_notes m)
      @ map (\<lambda>c. Element (qname ''note'') [] (Some (label @ c)) []) (allergens m)
      @ map (\<lambda>p. Element (qname ''price'') [(ascii ''role'', fst p)]
               (Some (format_2f (the (snd p)))) [])
          (filter (\<lambda>p. snd p \<noteq> None) (prices m)))"

definition spec_day_block :: "ustring \<Rightarrow> day_rec \<Rightarrow> xml" where
  "spec_day_block label d = Element (qname ''day'') [(ascii ''date'', the (date d))] None
     (map (\<lambda>g. Element (qname ''category'') [(ascii ''name'', fst g)] None
              (map (spec_meal_block label) (snd g)))
        (spec_groups (meals d)))"

definition spec_feed_tree :: "ustring \<Rightarrow> ustring \<Rightarrow> day_rec list \<Rightarrow> xml" where
  "spec_feed_tree label canteen_name days =
     Element (qname ''openmensa'') [(ascii ''version'', ascii ''2.1'')] None
       [Element (qname ''canteen'') [] None
          (Element (qname ''name'') [] (Some canteen_name) []
           # map (spec_day_block label) (filter (\<lambda>d. date d \<noteq> None \<and> date d \<noteq> Some []) days))]"

text \<open>A day with the categories A, B, A, for the examples.\<close>

definition example_day :: day_rec where
  "example_day = \<lparr>date = Some (ascii ''2025-02-03''), weekday = ascii ''Mo'', meals =
          [\<lparr>category = ascii ''A'', name = ascii ''x<y'', meal_notes = [ascii ''n''],
            allergens = [ascii ''1''],
            prices = [(ascii ''students'', Some (Fin False 5 (- 1))), (ascii ''employees'', None),
                      (ascii ''others'', None)]\<rparr>,
           \<lparr>category = ascii ''B'', name = ascii ''b'', meal_notes = [], allergens = [],
            prices = [(ascii ''students'', None), (ascii ''employees'', None),
                      (ascii ''others'', None)]\<rparr>,
           \<lparr>category = ascii ''A'', name = ascii ''z'', meal_notes = [], allergens = [],
            prices = [(ascii ''students'', None), (ascii ''employees'', None),
                      (ascii ''others'', None)]\<rparr>]\<rparr>"

section \<open>Main\<close>

text \<open>
  The run after the page is fetched and reduced to text: \<open>fetched\<close> is \<open>None\<close> when the
  fetch raised. The result is the exit code and the feed written to the output file, if
  one was written.
\<close>

definition canteen_title :: ustring where
  "canteen_title = ascii ''Zentralmensa Arnold-Bode-Stra'' @ [223] @ ascii ''e (Studierendenwerk Kassel)''"

text \<open>\<^verbatim>\<open>sum(1 for d in days if d["date"])\<close>\<close>

definition sufficiency_tally :: "day_rec list \<Rightarrow> nat" where
  "sufficiency_tally days = length (filter dated days)"

definition main :: "(xml \<Rightarrow> ustring) \<Rightarrow> nat \<Rightarrow> ustring option \<Rightarrow> int \<times> ustring option" where
  "main tostring now_year fetched = (case fetched of None \<Rightarrow> (2, None)
     | Some text \<Rightarrow>
        (let days = parse_text_blocks now_year text in
         if length days = 0 then (3, None)
         else
           let feed = build_openmensa_xml tostring canteen_title days in
           if sufficiency_tally days < 4 then (4, Some feed) else (0, Some feed)))"

section \<open>Facts about the character classes\<close>

lemma is_digit_iff: "is_digit c \<longleftrightarrow> (\<exists>s\<in>set digit_starts. s \<le> c \<and> c < s + 10)"
  unfolding is_digit_def digit_value_def by (auto simp: find_None_iff)

lemma digit_starts_low: "\<forall>s\<in>set digit_starts. s = 48 \<or> 1632 \<le> s"
  by (simp add: digit_starts_def)

lemma digit_starts_48: "48 \<in> set digit_starts"
  by (simp add: digit_starts_def)

lemma is_digit_low: "c < 1632 \<Longrightarrow> is_digit c = (48 \<le> c \<and> c \<le> 57)"
proof
  assume c: "c < 1632" and "is_digit c"
  then obtain s where s: "s \<in> set digit_starts" "s \<le> c" "c < s + 10"
    unfolding is_digit_iff by blast
  with c digit_starts_low have "s = 48" by fastforce
  with s show "48 \<le> c \<and> c \<le> 57" by simp
next
  assume "48 \<le> c \<and> c \<le> 57"
  then show "is_digit c"
    unfolding is_digit_iff using digit_starts_48 by (intro bexI [of _ 48]) simp_all
qed

lemma digit_value_low:
  "c < 1632 \<Longrightarrow> digit_value c = (if 48 \<le> c \<and> c \<le> 57 then Some (c - 48) else None)"
proof (cases "48 \<le> c \<and> c \<le> 57")
  case True
  then show ?thesis by (simp add: digit_value_def digit_starts_def)
next
  case False
  assume "c < 1632"
  with False have "\<not> is_digit c" by (simp add: is_digit_low)
  with False show ?thesis by (simp add: is_digit_def)
qed

lemma not_digit_high_spaces:
  "list_all (\<lambda>c. \<not> is_digit c) [5760, 8192, 8193, 8194, 8195, 8196, 8197, 8198, 8199, 8200,
     8201, 8202, 8232, 8233, 8239, 8287, 12288, 8364]"
  by (simp add: is_digit_iff digit_starts_def)

lemma is_digit_euro: "is_digit 8364 = False"
  using not_digit_high_spaces by simp

lemma digit_not_space: "is_digit c \<Longrightarrow> \<not> is_space c"
proof (cases "c < 1632")
  case True
  assume "is_digit c"
  with True have "48 \<le> c \<and> c \<le> 57" by (simp add: is_digit_low)
  then show ?thesis by (simp add: is_space_def)
next
  case False
  assume d: "is_digit c"
  show ?thesis
  proof
    assume "is_space c"
    with False have "c \<in> set [5760, 8192, 8193, 8194, 8195, 8196, 8197, 8198, 8199, 8200,
     8201, 8202, 8232, 8233, 8239, 8287, 12288, 8364]"
      by (simp add: is_space_def) arith
    with not_digit_high_spaces have "\<not> is_digit c"
      unfolding list_all_iff by blast
    with d show False by simp
  qed
qed

lemma is_digit_not_ascii_other:
  "is_digit c \<Longrightarrow> (48 \<le> c \<and> c \<le> 57) \<or> 1632 \<le> c"
  using is_digit_low [of c] by (cases "c < 1632") simp_all

lemma dropWhile_space_digit:
  "list_all is_space ws \<Longrightarrow> is_digit x \<Longrightarrow> dropWhile is_space (ws @ x # rest) = x # rest"
  by (induction ws) (auto simp: digit_not_space)

lemma match_essen_iff: "match_essen s = essen_number s"
proof
  assume m: "match_essen s"
  then obtain a b c d e rest where s: "s = a # b # c # d # e # rest"
    by (cases s rule: match_essen.cases) auto
  from m s obtain x r where dw: "dropWhile is_space rest = x # r" and x: "is_digit x"
    by (auto split: list.splits)
  have rest: "rest = takeWhile is_space rest @ x # r"
    using dw takeWhile_dropWhile_id [of is_space rest] by simp
  have ws: "list_all is_space (takeWhile is_space rest)"
    by (simp add: list_all_iff) (meson set_takeWhileD)
  have "s = [a, b, c, d, e] @ takeWhile is_space rest @ x # r"
    using s rest by simp
  with m s ws x show "essen_number s"
    unfolding essen_number_def by (metis match_essen.simps(1))
next
  assume "essen_number s"
  then obtain a b c d e ws x rest where s: "s = [a, b, c, d, e] @ ws @ x # rest"
    and cs: "ci_e a" "ci_s b" "ci_s c" "ci_e d" "ci_n e"
    and ws: "list_all is_space ws" and x: "is_digit x"
    unfolding essen_number_def by blast
  show "match_essen s"
    using s cs x by (simp add: dropWhile_space_digit [OF ws x])
qed

section \<open>Evaluation of the model on concrete texts\<close>

lemmas char_defs = c_nl_def c_space_def c_hash_def c_lpar_def c_rpar_def c_star_def c_comma_def
  c_minus_def c_dot_def c_slash_def c_euro_def is_digit_low digit_value_low is_digit_euro
  is_space_def is_letter_def
  is_linebreak_def not_nl_def digit_or_dot_def slash_or_comma_def structural_char_def
  ci_e_def ci_s_def ci_n_def ascii_def

lemmas entry_defs = parse_entry_def strip_def lstrip_def rstrip_def normalize_category_def
  body_lines_def find_price_line_def price_at_def label_parts_def has_letter_def
  structural_line_def price_parts_def part_price_def parse_prices_def
  find_labels.simps cat_raw_of_def body_of_def lines_of_def labels_of_def

lemmas float_defs = normalize_price_def py_float_def float_strip_def float_space_def
  tail_ok_def parse_decimal_def
  split_mantissa_def parse_exponent_def digits_val_def mk_float_def
  binexp_def bitlen.simps round_half_even_def lower_ascii_def

lemmas uni_defs = is_digit_iff digit_value_def digit_starts_def

lemmas format_defs = format_2f_def round_half_even_def two_digits_def dec_digits.simps

lemmas date_defs = strptime_def day_field_def month_field_def year_field_def is_leap_def
  days_in_month_def isoformat_def pad_left_def dec_digits.simps digits_val_def
  day_month_dot_def date_with_year_def range_at_def extract_year_from_text_def

lemmas day_defs = parse_text_blocks_def parse_day_def split_days.simps split_entries.simps
  marker_at_def dated_def sufficiency_tally_def main_def build_openmensa_xml_def

lemmas feed_defs = build_tree_def day_element_def category_element_def meal_element_def
  price_elements_def group_meals_def qname_def NAMESPACE_def List.map_filter_def

section \<open>Facts about one meal entry\<close>

lemma parse_entry_Some:
  assumes "parse_entry e = Some m"
  shows "category m = normalize_category (cat_raw_of e)"
    and "name m = hd (lines_of e)"
    and "meal_notes m = add_residual (find_price_line (lines_of e))
           (fst (classify_labels (labels_of e))) (tl (lines_of e))"
    and "allergens m = snd (classify_labels (labels_of e))"
    and "prices m = parse_prices (find_price_line (lines_of e))"
    and "lines_of e \<noteq> []"
  using assms
  unfolding parse_entry_def cat_raw_of_def body_of_def lines_of_def labels_of_def Let_def
  by (auto split: if_splits)

lemma parse_prices_roles:
  "map fst (parse_prices pl) = [ascii ''students'', ascii ''employees'', ascii ''others'']"
  by (simp add: parse_prices_def Let_def)

lemma price_elements_roles:
  "map (\<lambda>e. map snd (xml_attrib e)) (price_elements ps)
     = map (\<lambda>p. [fst p]) (filter (\<lambda>p. snd p \<noteq> None) ps)"
  by (induction ps) (auto simp: price_elements_def List.map_filter_def split: option.splits)

lemma price_elements_tag: "e \<in> set (price_elements ps) \<Longrightarrow> xml_tag e = qname ''price''"
  by (auto simp: price_elements_def List.map_filter_def split: option.splits)

lemma qname_price_distinct:
  "qname ''name'' \<noteq> qname ''price''" "qname ''note'' \<noteq> qname ''price''"
  by (simp_all add: qname_def ascii_def)

lemma meal_element_price_children:
  "filter (\<lambda>e. xml_tag e = qname ''price'') (xml_children (meal_element m))
     = price_elements (prices m)"
proof -
  have "filter (\<lambda>e. xml_tag e = qname ''price'') (price_elements (prices m))
          = price_elements (prices m)"
    by (rule filter_True) (simp add: price_elements_tag)
  then show ?thesis
    by (simp add: meal_element_def qname_price_distinct filter_empty_conv o_def)
qed

section \<open>Facts about the price line\<close>

lemma takeWhile_run: "list_all P xs \<Longrightarrow> \<not> P y \<Longrightarrow> takeWhile P (xs @ y # ys) = xs"
  by (induction xs) auto

lemma dropWhile_run: "list_all P xs \<Longrightarrow> \<not> P y \<Longrightarrow> dropWhile P (xs @ y # ys) = y # ys"
  by (induction xs) auto

lemma list_all_takeWhile: "list_all P (takeWhile P xs)"
  by (induction xs) auto

lemma sep_not_digit: "c = c_comma \<or> c = c_dot \<Longrightarrow> \<not> is_digit c"
  by (auto simp: char_defs)

lemma euro_not_space: "\<not> is_space c_euro" and euro_not_digit: "\<not> is_digit c_euro"
  by (simp_all add: char_defs)

lemma price_at_iff:
  "price_at s \<longleftrightarrow> (\<exists>d1 sep d2 ws post.
     s = d1 @ [sep] @ d2 @ ws @ [c_euro] @ post \<and>
     d1 \<noteq> [] \<and> list_all is_digit d1 \<and> (sep = c_comma \<or> sep = c_dot) \<and>
     d2 \<noteq> [] \<and> list_all is_digit d2 \<and> list_all is_space ws)"
proof
  assume p: "price_at s"
  define d1 where "d1 = takeWhile is_digit s"
  from p obtain sep r where r1: "dropWhile is_digit s = sep # r"
    and sep: "sep = c_comma \<or> sep = c_dot"
    and d2: "takeWhile is_digit r \<noteq> []"
    and e: "case dropWhile is_space (dropWhile is_digit r) of [] \<Rightarrow> False | e # _ \<Rightarrow> e = c_euro"
    and d1: "d1 \<noteq> []"
    unfolding price_at_def d1_def by (auto split: list.splits)
  from e obtain post where post: "dropWhile is_space (dropWhile is_digit r) = c_euro # post"
    by (auto split: list.splits)
  define d2 where "d2 = takeWhile is_digit r"
  define ws where "ws = takeWhile is_space (dropWhile is_digit r)"
  have "s = d1 @ dropWhile is_digit s" by (simp add: d1_def)
  also have "dropWhile is_digit s = sep # r" by (rule r1)
  also have "r = d2 @ dropWhile is_digit r" by (simp add: d2_def)
  also have "dropWhile is_digit r = ws @ dropWhile is_space (dropWhile is_digit r)"
    by (simp add: ws_def)
  also note post
  finally have "s = d1 @ [sep] @ d2 @ ws @ [c_euro] @ post" by simp
  moreover have "list_all is_digit d1" "list_all is_digit d2" "list_all is_space ws"
    by (simp_all add: d1_def d2_def ws_def list_all_takeWhile)
  ultimately show "\<exists>d1 sep d2 ws post.
     s = d1 @ [sep] @ d2 @ ws @ [c_euro] @ post \<and>
     d1 \<noteq> [] \<and> list_all is_digit d1 \<and> (sep = c_comma \<or> sep = c_dot) \<and>
     d2 \<noteq> [] \<and> list_all is_digit d2 \<and> list_all is_space ws"
    using d1 d2 sep unfolding d2_def by blast
next
  assume "\<exists>d1 sep d2 ws post.
     s = d1 @ [sep] @ d2 @ ws @ [c_euro] @ post \<and>
     d1 \<noteq> [] \<and> list_all is_digit d1 \<and> (sep = c_comma \<or> sep = c_dot) \<and>
     d2 \<noteq> [] \<and> list_all is_digit d2 \<and> list_all is_space ws"
  then obtain d1 sep d2 ws post where s: "s = d1 @ sep # d2 @ ws @ c_euro # post"
    and d1: "d1 \<noteq> []" "list_all is_digit d1" and sep: "sep = c_comma \<or> sep = c_dot"
    and d2: "d2 \<noteq> []" "list_all is_digit d2" and ws: "list_all is_space ws"
    by auto
  have nsep: "\<not> is_digit sep" using sep by (rule sep_not_digit)
  obtain y ys where y: "ws @ c_euro # post = y # ys" and ny: "\<not> is_digit y"
  proof (cases ws)
    case Nil
    then show ?thesis using that [of c_euro post] by (simp add: euro_not_digit)
  next
    case (Cons a l)
    with ws have "\<not> is_digit a" using digit_not_space by auto
    with Cons show ?thesis using that [of a "l @ c_euro # post"] by simp
  qed
  have t1: "takeWhile is_digit s = d1" and r1: "dropWhile is_digit s = sep # d2 @ ws @ c_euro # post"
    unfolding s using d1 nsep by (simp_all add: takeWhile_run dropWhile_run)
  have t2: "takeWhile is_digit (d2 @ ws @ c_euro # post) = d2"
    and r2: "dropWhile is_digit (d2 @ ws @ c_euro # post) = ws @ c_euro # post"
    unfolding y using d2 ny by (simp_all add: takeWhile_run dropWhile_run)
  have r3: "dropWhile is_space (ws @ c_euro # post) = c_euro # post"
    using ws by (simp add: dropWhile_run euro_not_space)
  show "price_at s"
    unfolding price_at_def t1 r1 using d1 d2 sep by (simp add: t2 r2 r3)
qed

lemma has_price_suffix: "has_price l \<longleftrightarrow> (\<exists>pre s. l = pre @ s \<and> price_at s)"
proof (induction l)
  case Nil
  then show ?case by (simp add: price_at_def)
next
  case (Cons c cs)
  show ?case
  proof
    assume "has_price (c # cs)"
    then consider "price_at (c # cs)" | "has_price cs" by auto
    then show "\<exists>pre s. c # cs = pre @ s \<and> price_at s"
    proof cases
      case 1
      then show ?thesis by (metis append_Nil)
    next
      case 2
      with Cons.IH obtain pre s where "cs = pre @ s" "price_at s" by auto
      then show ?thesis by (metis append_Cons)
    qed
  next
    assume "\<exists>pre s. c # cs = pre @ s \<and> price_at s"
    then obtain pre s where ps: "c # cs = pre @ s" and p: "price_at s" by auto
    show "has_price (c # cs)"
    proof (cases pre)
      case Nil
      with ps have "s = c # cs" by simp
      with p have "price_at (c # cs)" by simp
      then show ?thesis by simp
    next
      case (Cons a pre')
      with ps have "cs = pre' @ s" by simp
      with p Cons.IH show ?thesis by auto
    qed
  qed
qed

lemma has_price_iff: "has_price l = amount_euro l"
proof
  assume "has_price l"
  then obtain pre s where l: "l = pre @ s" and p: "price_at s"
    unfolding has_price_suffix by blast
  from p obtain d1 sep d2 ws post where "s = d1 @ [sep] @ d2 @ ws @ [c_euro] @ post"
    "d1 \<noteq> []" "list_all is_digit d1" "sep = c_comma \<or> sep = c_dot"
    "d2 \<noteq> []" "list_all is_digit d2" "list_all is_space ws"
    unfolding price_at_iff by blast
  with l show "amount_euro l" unfolding amount_euro_def by blast
next
  assume "amount_euro l"
  then obtain pre d1 sep d2 ws post where l: "l = pre @ d1 @ [sep] @ d2 @ ws @ [c_euro] @ post"
    and sh: "d1 \<noteq> []" "list_all is_digit d1" "sep = c_comma \<or> sep = c_dot"
    "d2 \<noteq> []" "list_all is_digit d2" "list_all is_space ws"
    unfolding amount_euro_def by blast
  from sh have "price_at (d1 @ [sep] @ d2 @ ws @ [c_euro] @ post)"
    unfolding price_at_iff by blast
  with l show "has_price l" unfolding has_price_suffix by blast
qed

lemma amount_euro_needs_euro: "amount_euro l \<Longrightarrow> c_euro \<in> set l"
  unfolding amount_euro_def by auto

lemma window_nth:
  "i < length (take 5 (drop 1 ls)) \<Longrightarrow> take 5 (drop 1 ls) ! i = ls ! Suc i"
  by (cases ls) auto

lemma find_price_line_Some:
  "find_price_line ls = Some pl \<longleftrightarrow>
     (\<exists>i. 1 \<le> i \<and> i \<le> 5 \<and> i < length ls \<and> ls ! i = pl \<and> amount_euro pl \<and>
          (\<forall>j. 1 \<le> j \<and> j < i \<longrightarrow> \<not> amount_euro (ls ! j)))"
proof -
  define W where "W = take 5 (drop 1 ls)"
  have win: "W ! k = ls ! Suc k" if "k < length W" for k
    using that unfolding W_def by (rule window_nth)
  have lenW: "k < length W \<longleftrightarrow> k < 5 \<and> Suc k < length ls" for k
    unfolding W_def by auto
  have f: "find_price_line ls = Some pl \<longleftrightarrow>
      (\<exists>k<length W. amount_euro (W ! k) \<and> pl = W ! k \<and> (\<forall>j<k. \<not> amount_euro (W ! j)))"
    unfolding find_price_line_def find_Some_iff W_def has_price_iff ..
  show ?thesis
  proof
    assume "find_price_line ls = Some pl"
    then obtain k where k: "k < length W" and a: "amount_euro (W ! k)" and pl: "pl = W ! k"
      and first: "\<forall>j<k. \<not> amount_euro (W ! j)"
      unfolding f by blast
    have "\<not> amount_euro (ls ! j)" if "1 \<le> j \<and> j < Suc k" for j
    proof -
      from that obtain j' where j': "j = Suc j'" "j' < k" by (cases j) auto
      with k have "j' < length W" by simp
      with first j' show ?thesis by (simp add: win [symmetric])
    qed
    moreover have "ls ! Suc k = pl" "amount_euro pl" using k a pl by (simp_all add: win)
    moreover have "1 \<le> Suc k" "Suc k \<le> 5" "Suc k < length ls" using k lenW by auto
    ultimately show "\<exists>i. 1 \<le> i \<and> i \<le> 5 \<and> i < length ls \<and> ls ! i = pl \<and> amount_euro pl \<and>
          (\<forall>j. 1 \<le> j \<and> j < i \<longrightarrow> \<not> amount_euro (ls ! j))"
      by blast
  next
    assume "\<exists>i. 1 \<le> i \<and> i \<le> 5 \<and> i < length ls \<and> ls ! i = pl \<and> amount_euro pl \<and>
          (\<forall>j. 1 \<le> j \<and> j < i \<longrightarrow> \<not> amount_euro (ls ! j))"
    then obtain i where i: "1 \<le> i" "i \<le> 5" "i < length ls" and pl: "ls ! i = pl"
      and a: "amount_euro pl" and first: "\<forall>j. 1 \<le> j \<and> j < i \<longrightarrow> \<not> amount_euro (ls ! j)"
      by blast
    from i obtain k where k: "i = Suc k" by (cases i) auto
    have kl: "k < length W" using i k lenW by simp
    have "amount_euro (W ! k)" "pl = W ! k" using kl pl a k by (simp_all add: win)
    moreover have "\<forall>j<k. \<not> amount_euro (W ! j)"
    proof (intro allI impI)
      fix j assume j: "j < k"
      with kl have "j < length W" by simp
      then have "W ! j = ls ! Suc j" by (rule win)
      moreover have "\<not> amount_euro (ls ! Suc j)" using first j k by simp
      ultimately show "\<not> amount_euro (W ! j)" by simp
    qed
    ultimately show "find_price_line ls = Some pl"
      unfolding f using kl by blast
  qed
qed

lemma find_price_line_None:
  "find_price_line ls = None \<longleftrightarrow>
     (\<forall>i. 1 \<le> i \<and> i \<le> 5 \<and> i < length ls \<longrightarrow> \<not> amount_euro (ls ! i))"
proof
  assume n: "find_price_line ls = None"
  show "\<forall>i. 1 \<le> i \<and> i \<le> 5 \<and> i < length ls \<longrightarrow> \<not> amount_euro (ls ! i)"
  proof (intro allI impI)
    fix i assume i: "1 \<le> i \<and> i \<le> 5 \<and> i < length ls"
    show "\<not> amount_euro (ls ! i)"
    proof
      assume "amount_euro (ls ! i)"
      have "\<exists>k. 1 \<le> k \<and> k \<le> i \<and> amount_euro (ls ! k) \<and> (\<forall>j. 1 \<le> j \<and> j < k \<longrightarrow> \<not> amount_euro (ls ! j))"
        using \<open>amount_euro (ls ! i)\<close> i
      proof (induction i rule: less_induct)
        case (less i)
        show ?case
        proof (cases "\<exists>j. 1 \<le> j \<and> j < i \<and> amount_euro (ls ! j)")
          case True
          then obtain j where j: "1 \<le> j" "j < i" "amount_euro (ls ! j)" by blast
          with less.prems have "1 \<le> j \<and> j \<le> 5 \<and> j < length ls" by simp
          from less.IH [OF j(2) j(3) this] obtain k where
            "1 \<le> k \<and> k \<le> j \<and> amount_euro (ls ! k) \<and> (\<forall>j. 1 \<le> j \<and> j < k \<longrightarrow> \<not> amount_euro (ls ! j))"
            by blast
          with j show ?thesis by (intro exI [of _ k]) auto
        next
          case False
          with less.prems show ?thesis by (intro exI [of _ i]) auto
        qed
      qed
      then obtain k where "1 \<le> k" "k \<le> i" "amount_euro (ls ! k)"
        "\<forall>j. 1 \<le> j \<and> j < k \<longrightarrow> \<not> amount_euro (ls ! j)" by blast
      with i have "find_price_line ls = Some (ls ! k)"
        unfolding find_price_line_Some by (intro exI [of _ k]) auto
      with n show False by simp
    qed
  qed
next
  assume a: "\<forall>i. 1 \<le> i \<and> i \<le> 5 \<and> i < length ls \<longrightarrow> \<not> amount_euro (ls ! i)"
  show "find_price_line ls = None"
  proof (cases "find_price_line ls")
    case None then show ?thesis .
  next
    case (Some pl)
    then obtain i where "1 \<le> i \<and> i \<le> 5 \<and> i < length ls" "ls ! i = pl" "amount_euro pl"
      unfolding find_price_line_Some by blast
    with a show ?thesis by blast
  qed
qed

section \<open>Facts about annotations and notes\<close>

lemma classify_labels_fst:
  "fst (classify_labels ls) = concat (map label_parts (filter has_letter ls))"
  by (induction ls) (auto split: prod.splits)

lemma classify_labels_snd:
  "snd (classify_labels ls) = concat (map label_parts (filter (\<lambda>l. \<not> has_letter l) ls))"
  by (induction ls) (auto split: prod.splits)

lemma find_labels_sound:
  "l \<in> set (find_labels s) \<Longrightarrow>
     \<exists>pre post. s = pre @ [c_lpar] @ l @ [c_rpar] @ post \<and> l \<noteq> [] \<and> c_rpar \<notin> set l"
proof (induction s rule: find_labels.induct)
  case 1
  then show ?case by (simp add: find_labels.simps)
next
  case (2 c cs)
  let ?t = "takeWhile (\<lambda>x. x \<noteq> c_rpar) cs"
  let ?d = "dropWhile (\<lambda>x. x \<noteq> c_rpar) cs"
  show ?case
  proof (cases "c = c_lpar \<and> ?t \<noteq> [] \<and> ?d \<noteq> []")
    case True
    then have "hd ?d = c_rpar"
      using hd_dropWhile [of "\<lambda>x. x \<noteq> c_rpar" cs] by simp
    with True obtain post where d: "?d = c_rpar # post"
      by (cases ?d) auto
    have cs: "cs = ?t @ c_rpar # post" using d takeWhile_dropWhile_id [of _ cs] by metis
    from True 2(3) have "l = ?t \<or> l \<in> set (find_labels (tl ?d))"
      by (simp add: find_labels.simps)
    then show ?thesis
    proof
      assume l: "l = ?t"
      have "c_rpar \<notin> set ?t" by (auto dest: set_takeWhileD)
      moreover have "c # cs = [] @ [c_lpar] @ ?t @ [c_rpar] @ post" using True cs by simp
      ultimately show ?thesis using True l by blast
    next
      assume "l \<in> set (find_labels (tl ?d))"
      with 2(1) True obtain pre' post' where
        p: "tl ?d = pre' @ [c_lpar] @ l @ [c_rpar] @ post'" "l \<noteq> []" "c_rpar \<notin> set l"
        by blast
      have "c # cs = (c # ?t @ [c_rpar] @ pre') @ [c_lpar] @ l @ [c_rpar] @ post'"
        using cs d p(1) by simp
      with p show ?thesis by blast
    qed
  next
    case False
    with 2(3) have "l \<in> set (find_labels cs)" by (auto simp: find_labels.simps)
    with 2(2) False obtain pre' post' where
      p: "cs = pre' @ [c_lpar] @ l @ [c_rpar] @ post'" "l \<noteq> []" "c_rpar \<notin> set l"
      by blast
    then have "c # cs = (c # pre') @ [c_lpar] @ l @ [c_rpar] @ post'" by simp
    with p show ?thesis by blast
  qed
qed

lemma add_residual_shape:
  "\<exists>res. add_residual pl ns ls = ns @ res \<and> distinct res \<and> set res \<inter> set ns = {}
     \<and> set res = {l \<in> set ls. Some l \<noteq> pl \<and> \<not> structural_line l} - set ns
     \<and> subseq res ls"
proof (induction ls arbitrary: ns)
  case Nil
  then show ?case by simp
next
  case (Cons l ls)
  from Cons.IH [of ns] obtain res where r: "add_residual pl ns ls = ns @ res" "distinct res"
    "set res \<inter> set ns = {}"
    "set res = {l \<in> set ls. Some l \<noteq> pl \<and> \<not> structural_line l} - set ns" "subseq res ls"
    by blast
  show ?case
  proof (cases "Some l = pl \<or> structural_line l \<or> l \<in> set ns")
    case True
    then have "add_residual pl ns (l # ls) = ns @ res" using r(1) by auto
    moreover have "set res = {x \<in> set (l # ls). Some x \<noteq> pl \<and> \<not> structural_line x} - set ns"
      using True r(4) by auto
    moreover have "subseq res (l # ls)" using r(5) by (rule list_emb_Cons)  
    ultimately show ?thesis using r(2,3) by blast
  next
    case False
    from Cons.IH [of "ns @ [l]"] obtain res' where r': "add_residual pl (ns @ [l]) ls = (ns @ [l]) @ res'"
      "distinct res'" "set res' \<inter> set (ns @ [l]) = {}"
      "set res' = {x \<in> set ls. Some x \<noteq> pl \<and> \<not> structural_line x} - set (ns @ [l])"
      "subseq res' ls"
      by blast
    from False have "add_residual pl ns (l # ls) = ns @ (l # res')" using r'(1) by simp
    moreover have "distinct (l # res')" using r'(2,3) by auto
    moreover have "set (l # res') \<inter> set ns = {}" using r'(3) False by auto
    moreover have "set (l # res') = {x \<in> set (l # ls). Some x \<noteq> pl \<and> \<not> structural_line x} - set ns"
      using r'(4) False by auto
    moreover have "subseq (l # res') (l # ls)" using r'(5) by simp
    ultimately show ?thesis by blast
  qed
qed

lemma add_residual_prefix: "\<exists>res. add_residual pl ns ls = ns @ res"
  using add_residual_shape [of pl ns ls] by blast

section \<open>Facts about the year inference\<close>

lemma dot_not_digit: "\<not> is_digit c_dot" and minus_not_space: "\<not> is_space c_minus"
  by (simp_all add: char_defs)

lemma dm_field_cases:
  "dm_field f \<longleftrightarrow> (\<exists>a. f = [a] \<and> is_digit a) \<or> (\<exists>a b. f = [a, b] \<and> is_digit a \<and> is_digit b)"
proof
  assume d: "dm_field f"
  then obtain a r where f: "f = a # r" unfolding dm_field_def by (cases f) auto
  show "(\<exists>a. f = [a] \<and> is_digit a) \<or> (\<exists>a b. f = [a, b] \<and> is_digit a \<and> is_digit b)"
  proof (cases r)
    case Nil
    with d f show ?thesis by (simp add: dm_field_def)
  next
    case (Cons b r')
    with d f have "r' = []" by (simp add: dm_field_def)
    with d f Cons show ?thesis by (simp add: dm_field_def)
  qed
next
  assume "(\<exists>a. f = [a] \<and> is_digit a) \<or> (\<exists>a b. f = [a, b] \<and> is_digit a \<and> is_digit b)"
  then show "dm_field f" by (auto simp: dm_field_def)
qed

lemma digits12_dot_iff:
  "digits12_dot s = Some (g, r) \<longleftrightarrow> (\<exists>f. dm_field f \<and> g = f @ [c_dot] \<and> s = g @ r)"
proof
  assume "digits12_dot s = Some (g, r)"
  then show "\<exists>f. dm_field f \<and> g = f @ [c_dot] \<and> s = g @ r"
    unfolding dm_field_cases
    by (cases s rule: digits12_dot.cases) (auto split: if_splits list.splits)
next
  assume "\<exists>f. dm_field f \<and> g = f @ [c_dot] \<and> s = g @ r"
  then obtain f where f: "dm_field f" and g: "g = f @ [c_dot]" and s: "s = g @ r" by blast
  from f consider a where "f = [a]" "is_digit a" | a b where "f = [a, b]" "is_digit a" "is_digit b"
    unfolding dm_field_cases by blast
  then show "digits12_dot s = Some (g, r)"
  proof cases
    case 1
    then show ?thesis using g s by simp
  next
    case 2
    then show ?thesis using g s dot_not_digit by auto
  qed
qed

lemma day_month_dot_iff:
  "day_month_dot s = Some (g, r) \<longleftrightarrow>
     (\<exists>d m. dm_field d \<and> dm_field m \<and> g = d @ [c_dot] @ m @ [c_dot] \<and> s = g @ r)"
proof
  assume "day_month_dot s = Some (g, r)"
  then obtain g1 r1 g2 where a: "digits12_dot s = Some (g1, r1)"
    and b: "digits12_dot r1 = Some (g2, r)" and g: "g = g1 @ g2"
    unfolding day_month_dot_def by (auto split: option.splits)
  from a obtain d where d: "dm_field d" "g1 = d @ [c_dot]" "s = g1 @ r1"
    unfolding digits12_dot_iff by blast
  from b obtain m where m: "dm_field m" "g2 = m @ [c_dot]" "r1 = g2 @ r"
    unfolding digits12_dot_iff by blast
  from d m g show "\<exists>d m. dm_field d \<and> dm_field m \<and> g = d @ [c_dot] @ m @ [c_dot] \<and> s = g @ r"
    by auto
next
  assume "\<exists>d m. dm_field d \<and> dm_field m \<and> g = d @ [c_dot] @ m @ [c_dot] \<and> s = g @ r"
  then obtain d m where d: "dm_field d" and m: "dm_field m"
    and g: "g = d @ [c_dot] @ m @ [c_dot]" and s: "s = g @ r" by blast
  have a: "digits12_dot s = Some (d @ [c_dot], m @ [c_dot] @ r)"
    unfolding digits12_dot_iff using d g s by auto
  have b: "digits12_dot (m @ [c_dot] @ r) = Some (m @ [c_dot], r)"
    unfolding digits12_dot_iff using m by auto
  show "day_month_dot s = Some (g, r)"
    unfolding day_month_dot_def a using b g by simp
qed

lemma date_with_year_iff:
  "date_with_year s = Some (g, r) \<longleftrightarrow> full_date g \<and> s = g @ r"
proof
  assume "date_with_year s = Some (g, r)"
  then obtain g1 r1 where a: "day_month_dot s = Some (g1, r1)" and l: "4 \<le> length r1"
    and dg: "list_all is_digit (take 4 r1)" and g: "g = g1 @ take 4 r1" and r: "r = drop 4 r1"
    unfolding date_with_year_def by (auto split: option.splits if_splits)
  from a obtain d m where dm: "dm_field d" "dm_field m" "g1 = d @ [c_dot] @ m @ [c_dot]"
    "s = g1 @ r1"
    unfolding day_month_dot_iff by blast
  have "full_date g"
    unfolding full_date_def using dm g l dg
    by (intro exI [of _ d] exI [of _ m] exI [of _ "take 4 r1"]) simp
  moreover have "s = g @ r" using dm g r by simp
  ultimately show "full_date g \<and> s = g @ r" by simp
next
  assume "full_date g \<and> s = g @ r"
  then obtain d m y where g: "g = d @ [c_dot] @ m @ [c_dot] @ y" and dm: "dm_field d" "dm_field m"
    and y: "length y = 4" "list_all is_digit y" and s: "s = g @ r"
    unfolding full_date_def by blast
  have a: "day_month_dot s = Some (d @ [c_dot] @ m @ [c_dot], y @ r)"
    unfolding day_month_dot_iff using dm g s by auto
  show "date_with_year s = Some (g, r)"
    unfolding date_with_year_def a using y g by simp
qed

lemma full_date_starts_with_digit: "full_date g \<Longrightarrow> \<exists>a t. g = a # t \<and> is_digit a"
  unfolding full_date_def dm_field_cases by auto

lemma range_at_iff: "range_at s = Some g \<longleftrightarrow> range_prefix s g"
proof
  assume "range_at s = Some g"
  then obtain r1 r2 g2 r3 where a: "date_with_year s = Some (g, r1)"
    and b: "dropWhile is_space r1 = c_minus # r2"
    and c: "date_with_year (dropWhile is_space r2) = Some (g2, r3)"
    unfolding range_at_def by (auto split: option.splits list.splits if_splits)
  from a have fg: "full_date g" and s: "s = g @ r1" unfolding date_with_year_iff by simp_all
  from c have fg2: "full_date g2" and r2: "dropWhile is_space r2 = g2 @ r3"
    unfolding date_with_year_iff by simp_all
  have "r1 = takeWhile is_space r1 @ c_minus # r2"
    using b takeWhile_dropWhile_id [of is_space r1] by simp
  moreover have "r2 = takeWhile is_space r2 @ g2 @ r3"
    using r2 takeWhile_dropWhile_id [of is_space r2] by simp
  ultimately have "s = g @ takeWhile is_space r1 @ [c_minus] @ takeWhile is_space r2 @ g2 @ r3"
    using s by simp
  with fg fg2 show "range_prefix s g"
    unfolding range_prefix_def using list_all_takeWhile by blast
next
  assume "range_prefix s g"
  then obtain ws1 ws2 g2 post where s: "s = g @ ws1 @ [c_minus] @ ws2 @ g2 @ post"
    and fg: "full_date g" and fg2: "full_date g2"
    and ws: "list_all is_space ws1" "list_all is_space ws2"
    unfolding range_prefix_def by blast
  have a: "date_with_year s = Some (g, ws1 @ [c_minus] @ ws2 @ g2 @ post)"
    unfolding date_with_year_iff using fg s by simp
  have b: "dropWhile is_space (ws1 @ [c_minus] @ ws2 @ g2 @ post) = c_minus # ws2 @ g2 @ post"
    using ws(1) minus_not_space by (simp add: dropWhile_run)
  from fg2 obtain x t where x: "g2 = x # t" "is_digit x"
    using full_date_starts_with_digit by blast
  then have "\<not> is_space x" using digit_not_space by blast
  then have c: "dropWhile is_space (ws2 @ g2 @ post) = g2 @ post"
    using ws(2) x by (simp add: dropWhile_run)
  have d: "date_with_year (g2 @ post) = Some (g2, post)"
    unfolding date_with_year_iff using fg2 by simp
  show "range_at s = Some g"
    unfolding range_at_def a using b c d by simp
qed

lemma search_range_None:
  "search_range t = None \<longleftrightarrow> (\<forall>pre rest g. t = pre @ rest \<longrightarrow> \<not> range_prefix rest g)"
proof (induction t)
  case Nil
  have "range_at [] = None" by (simp add: range_at_def date_with_year_def day_month_dot_def)
  then show ?case using range_at_iff [of "[]"] by auto
next
  case (Cons c cs)
  show ?case
  proof
    assume n: "search_range (c # cs) = None"
    then have a: "range_at (c # cs) = None" and b: "search_range cs = None"
      by (auto split: option.splits)
    show "\<forall>pre rest g. c # cs = pre @ rest \<longrightarrow> \<not> range_prefix rest g"
    proof (intro allI impI)
      fix pre rest g assume e: "c # cs = pre @ rest"
      show "\<not> range_prefix rest g"
      proof (cases pre)
        case Nil
        with e a show ?thesis using range_at_iff [of "c # cs" g] by simp
      next
        case (Cons x pre')
        with e have "cs = pre' @ rest" by simp
        with b Cons.IH show ?thesis by blast
      qed
    qed
  next
    assume a: "\<forall>pre rest g. c # cs = pre @ rest \<longrightarrow> \<not> range_prefix rest g"
    have "range_at (c # cs) = None"
    proof (cases "range_at (c # cs)")
      case (Some g)
      then have "range_prefix (c # cs) g" by (simp add: range_at_iff)
      with a [rule_format, of "[]" "c # cs" g] show ?thesis by simp
    qed simp
    moreover have "search_range cs = None"
      unfolding Cons.IH
    proof (intro allI impI)
      fix pre rest g assume "cs = pre @ rest"
      then have "c # cs = (c # pre) @ rest" by simp
      with a show "\<not> range_prefix rest g" by blast
    qed
    ultimately show "search_range (c # cs) = None" by simp
  qed
qed

lemma search_range_Some:
  "search_range t = Some g \<Longrightarrow>
     \<exists>pre rest. t = pre @ rest \<and> range_prefix rest g \<and>
       (\<forall>pre' rest' g'. t = pre' @ rest' \<and> length pre' < length pre \<longrightarrow> \<not> range_prefix rest' g')"
proof (induction t)
  case Nil
  then show ?case by simp
next
  case (Cons c cs)
  show ?case
  proof (cases "range_at (c # cs)")
    case (Some g0)
    with Cons.prems have "g0 = g" by simp
    with Some have "range_prefix (c # cs) g" by (simp add: range_at_iff)
    then show ?thesis by (intro exI [of _ "[]"] exI [of _ "c # cs"]) simp
  next
    case None
    with Cons.prems have "search_range cs = Some g" by simp
    with Cons.IH obtain pre rest where p: "cs = pre @ rest" "range_prefix rest g"
      and first: "\<forall>pre' rest' g'. cs = pre' @ rest' \<and> length pre' < length pre \<longrightarrow> \<not> range_prefix rest' g'"
      by blast
    have "\<forall>pre' rest' g'. c # cs = pre' @ rest' \<and> length pre' < length (c # pre) \<longrightarrow> \<not> range_prefix rest' g'"
    proof (intro allI impI)
      fix pre' rest' g' assume h: "c # cs = pre' @ rest' \<and> length pre' < length (c # pre)"
      show "\<not> range_prefix rest' g'"
      proof (cases pre')
        case Nil
        with h have "rest' = c # cs" by simp
        with None show ?thesis using range_at_iff [of "c # cs" g'] by simp
      next
        case (Cons x p')
        with h have "cs = p' @ rest'" "length p' < length pre" by simp_all
        with first show ?thesis by blast
      qed
    qed
    moreover have "c # cs = (c # pre) @ rest" using p by simp
    ultimately show ?thesis using p(2) by blast
  qed
qed

lemma takeWhile_no_dot:
  "c_dot \<notin> set f \<Longrightarrow> takeWhile (\<lambda>c. c \<noteq> c_dot) (f @ c_dot # r) = f"
  "c_dot \<notin> set f \<Longrightarrow> dropWhile (\<lambda>c. c \<noteq> c_dot) (f @ c_dot # r) = c_dot # r"
  by (induction f) auto

lemma strptime_fields:
  assumes "c_dot \<notin> set dd" "c_dot \<notin> set mm"
  shows "strptime (dd @ [c_dot] @ mm @ [c_dot] @ y) =
     (case (day_field dd, month_field mm, year_field y) of
        (Some dv, Some mv, Some yv) \<Rightarrow>
          if 1 \<le> yv \<and> dv \<le> days_in_month yv mv
          then Some \<lparr>year = yv, month = mv, day = dv\<rparr> else None
      | _ \<Rightarrow> None)"
  unfolding strptime_def using assms
  by (simp add: takeWhile_no_dot Let_def cong: option.case_cong)

lemma dm_field_no_dot: "dm_field f \<Longrightarrow> c_dot \<notin> set f"
  unfolding dm_field_def using dot_not_digit by (auto simp: list_all_iff)

lemma strptime_year:
  assumes "strptime (dd @ [c_dot] @ mm @ [c_dot] @ y) = Some d" "dm_field dd" "dm_field mm"
  shows "year d = digits_val y \<and> length y = 4 \<and> list_all is_digit y \<and> 1 \<le> year d
         \<and> day_field dd = Some (day d) \<and> month_field mm = Some (month d)
         \<and> day d \<le> days_in_month (year d) (month d)"
  using assms(1)
  unfolding strptime_fields [OF dm_field_no_dot [OF assms(2)] dm_field_no_dot [OF assms(3)]]
  by (auto simp: year_field_def split: option.splits if_splits)

section \<open>Facts about the feed builder\<close>

lemma first_seen_snoc:
  "first_seen (xs @ [x]) = (if x \<in> set xs then first_seen xs else first_seen xs @ [x])"
  by (simp add: first_seen_def)

lemma set_first_seen: "set (first_seen xs) = set xs" and distinct_first_seen: "distinct (first_seen xs)"
  by (simp_all add: first_seen_def)

lemma group_add_keys:
  "distinct ks \<Longrightarrow> group_add (map (\<lambda>c. (c, f c)) ks) m =
     (if category m \<in> set ks
      then map (\<lambda>c. (c, if c = category m then f c @ [m] else f c)) ks
      else map (\<lambda>c. (c, f c)) ks @ [(category m, [m])])"
  by (induction ks) auto

lemma group_meals_snoc: "group_meals (ms @ [m]) = group_add (group_meals ms) m"
  by (simp add: group_meals_def)

lemma group_meals_spec: "group_meals ms = spec_groups ms"
proof (induction ms rule: rev_induct)
  case Nil
  then show ?case by (simp add: group_meals_def spec_groups_def first_seen_def)
next
  case (snoc m ms)
  let ?ks = "first_seen (map category ms)"
  let ?f = "\<lambda>c. filter (\<lambda>m. category m = c) ms"
  have g: "group_meals ms = map (\<lambda>c. (c, ?f c)) ?ks"
    using snoc by (simp add: spec_groups_def)
  have step: "group_meals (ms @ [m]) =
     (if category m \<in> set ?ks
      then map (\<lambda>c. (c, if c = category m then ?f c @ [m] else ?f c)) ?ks
      else map (\<lambda>c. (c, ?f c)) ?ks @ [(category m, [m])])"
    unfolding group_meals_snoc g by (rule group_add_keys) (rule distinct_first_seen)
  show ?case
  proof (cases "category m \<in> set (map category ms)")
    case True
    then have "spec_groups (ms @ [m]) = map (\<lambda>c. (c, filter (\<lambda>m. category m = c) (ms @ [m]))) ?ks"
      by (simp add: spec_groups_def first_seen_snoc)
    also have "\<dots> = map (\<lambda>c. (c, if c = category m then ?f c @ [m] else ?f c)) ?ks"
      by (rule map_cong) auto
    finally show ?thesis using step True by (simp add: set_first_seen)
  next
    case False
    then have "\<forall>x\<in>set ms. category x \<noteq> category m"
      by (metis image_eqI set_map)
    then have nil: "filter (\<lambda>x. category x = category m) ms = []"
      by (simp add: filter_empty_conv)
    have "spec_groups (ms @ [m]) =
        map (\<lambda>c. (c, filter (\<lambda>m. category m = c) (ms @ [m]))) (?ks @ [category m])"
      using False by (simp add: spec_groups_def first_seen_snoc)
    also have "\<dots> = map (\<lambda>c. (c, filter (\<lambda>m. category m = c) (ms @ [m]))) ?ks @ [(category m, [m])]"
      using nil by simp
    also have "map (\<lambda>c. (c, filter (\<lambda>m. category m = c) (ms @ [m]))) ?ks = map (\<lambda>c. (c, ?f c)) ?ks"
      using False by (intro map_cong) (auto simp: set_first_seen)
    finally show ?thesis using step False by (simp add: set_first_seen)
  qed
qed

lemma price_elements_spec:
  "price_elements ps = map (\<lambda>p. Element (qname ''price'') [(ascii ''role'', fst p)]
               (Some (format_2f (the (snd p)))) []) (filter (\<lambda>p. snd p \<noteq> None) ps)"
  by (induction ps) (auto simp: price_elements_def List.map_filter_def split: option.splits)

lemma meal_element_spec: "meal_element m = spec_meal_block (ascii ''Allergene: '') m"
  by (simp add: meal_element_def spec_meal_block_def price_elements_spec)

lemma day_element_spec: "day_element d = spec_day_block (ascii ''Allergene: '') d"
  by (simp add: day_element_def spec_day_block_def group_meals_spec category_element_def
      meal_element_spec cong: map_cong)

lemma build_tree_spec:
  "build_tree canteen_name days = spec_feed_tree (ascii ''Allergene: '') canteen_name days"
proof -
  have "dated = (\<lambda>d. date d \<noteq> None \<and> date d \<noteq> Some [])"
    by (rule ext) (simp add: dated_def split: option.splits)
  then show ?thesis
    by (simp add: build_tree_def spec_feed_tree_def day_element_spec cong: map_cong)
qed

section \<open>A week with one impossible date\<close>

lemma week_30_feb:
  "parse_text_blocks 2026 (ascii ''#### Mo, 3.2.#### Di, 30.2.#### Mi, 5.2.#### Do, 6.2.'')
     = [\<lparr>date = Some (ascii ''2026-02-03''), weekday = ascii ''Mo'', meals = []\<rparr>,
        \<lparr>date = None, weekday = ascii ''Di'', meals = []\<rparr>,
        \<lparr>date = Some (ascii ''2026-02-05''), weekday = ascii ''Mi'', meals = []\<rparr>,
        \<lparr>date = Some (ascii ''2026-02-06''), weekday = ascii ''Do'', meals = []\<rparr>]"
proof -
  have sd: "snd (split_days (ascii ''#### Mo, 3.2.#### Di, 30.2.#### Mi, 5.2.#### Do, 6.2.''))
      = [(ascii ''Mo'', ascii ''3.2.'', []), (ascii ''Di'', ascii ''30.2.'', []),
         (ascii ''Mi'', ascii ''5.2.'', []), (ascii ''Do'', ascii ''6.2.'', [])]"
    by (simp add: char_defs split_days.simps day_month_dot_def)
  have ey: "extract_year_from_text 2026
      (ascii ''#### Mo, 3.2.#### Di, 30.2.#### Mi, 5.2.#### Do, 6.2.'') = 2026"
    by (simp add: char_defs date_defs)
  show ?thesis
    unfolding parse_text_blocks_def sd ey
    by (simp add: parse_day_def char_defs date_defs strip_def lstrip_def rstrip_def
        split_entries.simps parse_entry_def List.map_filter_def)
qed

section \<open>Claims\<close>

text \<open>
  C7. A raw category header that starts, in any letter case, with the word "essen"
  followed by optional white space and a digit (a decimal digit of any script, as
  \<^verbatim>\<open>\d\<close> has it) gets the category "Hauptgericht"; every other header is kept unchanged
  as the category. The last line of the witness is the header "Essen" with the
  Arabic-Indic digit three.
\<close>

theorem C7_category_normalisation:
  "normalize_category raw = (if essen_number raw then ascii ''Hauptgericht'' else raw)"
  by (simp add: normalize_category_def match_essen_iff)

theorem C7_category_normalisation_witness:
  "normalize_category (ascii ''Essen 3'') = ascii ''Hauptgericht''
   \<and> normalize_category (ascii ''eSSEN7 vegan'') = ascii ''Hauptgericht''
   \<and> normalize_category (ascii ''Suppe'') = ascii ''Suppe''
   \<and> normalize_category (ascii ''Abendessen 1'') = ascii ''Abendessen 1''
   \<and> normalize_category (ascii ''Essen '' @ [1635]) = ascii ''Hauptgericht''"
proof -
  have e1: "essen_number (ascii ''Essen 3'')"
    and e2: "essen_number (ascii ''eSSEN7 vegan'')"
    and e3: "\<not> essen_number (ascii ''Suppe'')"
    and e4: "\<not> essen_number (ascii ''Abendessen 1'')"
    unfolding match_essen_iff [symmetric] by (simp_all add: char_defs)
  have e5: "essen_number (ascii ''Essen '' @ [1635])"
    unfolding match_essen_iff [symmetric] by (simp add: char_defs uni_defs)
  show ?thesis
    using C7_category_normalisation [of "ascii ''Essen 3''"]
      C7_category_normalisation [of "ascii ''eSSEN7 vegan''"]
      C7_category_normalisation [of "ascii ''Suppe''"]
      C7_category_normalisation [of "ascii ''Abendessen 1''"]
      C7_category_normalisation [of "ascii ''Essen '' @ [1635]"]
    by (simp only: e1 e2 e3 e4 e5 if_True if_False simp_thms)
qed

text \<open>
  C9. The feed builder is a function of the canteen name and the day sequence alone, and
  nothing but their content and order decides its output: the string is the
  serialisation of the tree that the specification describes, with the dated days in
  the order of the sequence, the categories of a day in first-seen order, the meals of
  a category in original order, the notes, allergen notes and present prices of a meal
  in their order, and every price as \<^verbatim>\<open>"{:.2f}".format\<close> writes it. So equal names and
  equal day sequences give the same string, and days without a date have no influence.
  The order of the keys of a price dictionary is part of the day sequence here.
\<close>

theorem C9_feed_builder_deterministic:
  "build_openmensa_xml et_tostring canteen_name days
     = et_tostring (spec_feed_tree (ascii ''Allergene: '') canteen_name days)
   \<and> (canteen_name = canteen_name' \<and> days = days' \<longrightarrow>
        build_openmensa_xml et_tostring canteen_name days
          = build_openmensa_xml et_tostring canteen_name' days')
   \<and> (canteen_name = canteen_name' \<and> filter dated days = filter dated days' \<longrightarrow>
        build_openmensa_xml et_tostring canteen_name days
          = build_openmensa_xml et_tostring canteen_name' days')"
  by (simp add: build_openmensa_xml_def build_tree_spec [symmetric] build_tree_def)

text \<open>
  A feed of one dated day with the categories A, B, A and one day without a date: the
  bytes of the output, and the same output without the undated day.
\<close>

theorem C9_feed_builder_deterministic_witness:
  "build_openmensa_xml et_tostring (ascii ''M'') [example_day, \<lparr>date = None, weekday = ascii ''Di'', meals = []\<rparr>]
     = ascii ''<?xml version='' @ [39] @ ascii ''1.0'' @ [39] @ ascii '' encoding='' @ [39]
       @ ascii ''utf-8'' @ [39] @ ascii ''?>'' @ [c_nl]
       @ ascii ''<openmensa xmlns='' @ quoted NAMESPACE @ ascii '' version='' @ quoted (ascii ''2.1'')
       @ ascii ''><canteen><name>M</name><day date='' @ quoted (ascii ''2025-02-03'')
       @ ascii ''><category name='' @ quoted (ascii ''A'')
       @ ascii ''><meal><name>x&lt;y</name><note>n</note><note>Allergene: 1</note><price role=''
       @ quoted (ascii ''students'')
       @ ascii ''>2.50</price></meal><meal><name>z</name></meal></category><category name=''
       @ quoted (ascii ''B'')
       @ ascii ''><meal><name>b</name></meal></category></day></canteen></openmensa>''
   \<and> build_openmensa_xml et_tostring (ascii ''M'') [example_day, \<lparr>date = None, weekday = ascii ''Di'', meals = []\<rparr>]
     = build_openmensa_xml et_tostring (ascii ''M'') [example_day]"
proof -
  note T = C9_feed_builder_deterministic
    [of "ascii ''M''" "[example_day, \<lparr>date = None, weekday = ascii ''Di'', meals = []\<rparr>]" "ascii ''M''" "[example_day]"]
  have fd: "filter dated [example_day, \<lparr>date = None, weekday = ascii ''Di'', meals = []\<rparr>] = filter dated [example_day]"
    by (simp add: dated_def example_day_def ascii_def)
  have tree: "et_tostring (spec_feed_tree (ascii ''Allergene: '') (ascii ''M'')
      [example_day, \<lparr>date = None, weekday = ascii ''Di'', meals = []\<rparr>])
     = ascii ''<?xml version='' @ [39] @ ascii ''1.0'' @ [39] @ ascii '' encoding='' @ [39]
       @ ascii ''utf-8'' @ [39] @ ascii ''?>'' @ [c_nl]
       @ ascii ''<openmensa xmlns='' @ quoted NAMESPACE @ ascii '' version='' @ quoted (ascii ''2.1'')
       @ ascii ''><canteen><name>M</name><day date='' @ quoted (ascii ''2025-02-03'')
       @ ascii ''><category name='' @ quoted (ascii ''A'')
       @ ascii ''><meal><name>x&lt;y</name><note>n</note><note>Allergene: 1</note><price role=''
       @ quoted (ascii ''students'')
       @ ascii ''>2.50</price></meal><meal><name>z</name></meal></category><category name=''
       @ quoted (ascii ''B'')
       @ ascii ''><meal><name>b</name></meal></category></day></canteen></openmensa>''"
    by (simp add: example_day_def et_tostring_def spec_feed_tree_def spec_day_block_def
        spec_groups_def first_seen_def spec_meal_block_def qname_def NAMESPACE_def
        local_tag_def quoted_def escape_cdata_def escape_attrib_def is_surrogate_def
        format_defs char_defs)
  from T have "build_openmensa_xml et_tostring (ascii ''M'') [example_day, \<lparr>date = None, weekday = ascii ''Di'', meals = []\<rparr>]
     = et_tostring (spec_feed_tree (ascii ''Allergene: '') (ascii ''M'') [example_day, \<lparr>date = None, weekday = ascii ''Di'', meals = []\<rparr>])"
    by blast
  then have a: "build_openmensa_xml et_tostring (ascii ''M'') [example_day, \<lparr>date = None, weekday = ascii ''Di'', meals = []\<rparr>]
     = ascii ''<?xml version='' @ [39] @ ascii ''1.0'' @ [39] @ ascii '' encoding='' @ [39]
       @ ascii ''utf-8'' @ [39] @ ascii ''?>'' @ [c_nl]
       @ ascii ''<openmensa xmlns='' @ quoted NAMESPACE @ ascii '' version='' @ quoted (ascii ''2.1'')
       @ ascii ''><canteen><name>M</name><day date='' @ quoted (ascii ''2025-02-03'')
       @ ascii ''><category name='' @ quoted (ascii ''A'')
       @ ascii ''><meal><name>x&lt;y</name><note>n</note><note>Allergene: 1</note><price role=''
       @ quoted (ascii ''students'')
       @ ascii ''>2.50</price></meal><meal><name>z</name></meal></category><category name=''
       @ quoted (ascii ''B'')
       @ ascii ''><meal><name>b</name></meal></category></day></canteen></openmensa>''"
    by (simp only: tree)
  from T fd have b: "build_openmensa_xml et_tostring (ascii ''M'') [example_day, \<lparr>date = None, weekday = ascii ''Di'', meals = []\<rparr>]
     = build_openmensa_xml et_tostring (ascii ''M'') [example_day]"
    by blast
  from a b show ?thesis by (rule conjI)
qed

text \<open>
  C10. In the element of a meal produced by the extractor, the price children are the
  elements for the roles students, employees, others in this order, those roles left
  out whose price is absent.
\<close>

theorem C10_price_children_role_order:
  assumes "parse_entry ent = Some m"
  shows "map (\<lambda>e. map snd (xml_attrib e))
           (filter (\<lambda>e. xml_tag e = qname ''price'') (xml_children (meal_element m)))
         = map (\<lambda>p. [fst p]) (filter (\<lambda>p. snd p \<noteq> None) (prices m))
         \<and> map fst (prices m) = [ascii ''students'', ascii ''employees'', ascii ''others'']"
  using parse_entry_Some(5) [OF assms]
  by (simp add: meal_element_price_children price_elements_roles parse_prices_roles)

theorem C10_price_children_role_order_witness:
  "\<exists>m. parse_entry (ascii ''Suppe
Linsen
2,50 '' @ [c_euro] @ ascii '' / x / 4,10 '' @ [c_euro]) = Some m
     \<and> map (\<lambda>e. map snd (xml_attrib e))
           (filter (\<lambda>e. xml_tag e = qname ''price'') (xml_children (meal_element m)))
         = [[ascii ''students''], [ascii ''others'']]"
proof -
  define m where "m = \<lparr>category = ascii ''Suppe'', name = ascii ''Linsen'', meal_notes = [],
    allergens = [],
    prices = [(ascii ''students'', Some (Fin False 5629499534213120 (- 51))),
              (ascii ''employees'', None),
              (ascii ''others'', Some (Fin False 4616189618054758 (- 50)))]\<rparr>"
  have pe: "parse_entry (ascii ''Suppe
Linsen
2,50 '' @ [c_euro] @ ascii '' / x / 4,10 '' @ [c_euro]) = Some m"
    unfolding m_def by (simp add: char_defs entry_defs float_defs Let_def)
  have "prices m = [(ascii ''students'', Some (Fin False 5629499534213120 (- 51))),
              (ascii ''employees'', None),
              (ascii ''others'', Some (Fin False 4616189618054758 (- 50)))]"
    by (simp add: m_def)
  with C10_price_children_role_order [OF pe] pe show ?thesis
    by auto
qed

text \<open>
  C1 (as the code has it). Every day header yields a Day, also when its date does not
  parse; such a Day has no date, gets no day element in the feed, and is not counted by
  the sufficiency check either: the tally behind exit code 4 is the number of Days with
  a date, which is the number of day elements of the feed. Only the check for exit
  code 3 counts all Days.
\<close>

theorem C1_undated_day_excluded_and_not_counted:
  "length (parse_text_blocks now_year text) = length (snd (split_days text))
   \<and> (strptime (strip g @ dec_digits yr) = None \<longrightarrow>
        date (parse_day yr (w, g, blk)) = None \<and> \<not> dated (parse_day yr (w, g, blk)))
   \<and> xml_children (hd (xml_children (build_tree canteen_name days)))
        = Element (qname ''name'') [] (Some canteen_name) [] # map day_element (filter dated days)
   \<and> sufficiency_tally days = length (filter dated days)
   \<and> fst (main tostring now_year (Some text))
        = (if parse_text_blocks now_year text = [] then 3
           else if length (filter dated (parse_text_blocks now_year text)) < 4 then 4 else 0)"
  by (simp add: parse_text_blocks_def parse_day_def dated_def build_tree_def
      sufficiency_tally_def main_def Let_def)

theorem C1_undated_day_excluded_and_not_counted_witness:
  "length (parse_text_blocks 2026
      (ascii ''#### Mo, 3.2.#### Di, 30.2.#### Mi, 5.2.#### Do, 6.2.'')) = 4
   \<and> strptime (strip (ascii ''30.2.'') @ dec_digits 2026) = None
   \<and> \<not> dated (parse_day 2026 (ascii ''Di'', ascii ''30.2.'', []))
   \<and> sufficiency_tally (parse_text_blocks 2026
      (ascii ''#### Mo, 3.2.#### Di, 30.2.#### Mi, 5.2.#### Do, 6.2.'')) = 3
   \<and> fst (main xml_tag 2026
      (Some (ascii ''#### Mo, 3.2.#### Di, 30.2.#### Mi, 5.2.#### Do, 6.2.''))) = 4"
proof -
  note T = C1_undated_day_excluded_and_not_counted
      [of 2026 "ascii ''#### Mo, 3.2.#### Di, 30.2.#### Mi, 5.2.#### Do, 6.2.''"
          "ascii ''30.2.''" 2026 "ascii ''Di''" "[]" "[]"
          "parse_text_blocks 2026 (ascii ''#### Mo, 3.2.#### Di, 30.2.#### Mi, 5.2.#### Do, 6.2.'')"
          xml_tag]
  have sp: "strptime (strip (ascii ''30.2.'') @ dec_digits 2026) = None"
    by (simp add: char_defs date_defs strip_def lstrip_def rstrip_def)
  have len: "length (parse_text_blocks 2026
      (ascii ''#### Mo, 3.2.#### Di, 30.2.#### Mi, 5.2.#### Do, 6.2.'')) = 4"
    unfolding week_30_feb by simp
  have nd: "\<not> dated (parse_day 2026 (ascii ''Di'', ascii ''30.2.'', []))"
    using T sp by blast
  have fd: "length (filter dated (parse_text_blocks 2026
      (ascii ''#### Mo, 3.2.#### Di, 30.2.#### Mi, 5.2.#### Do, 6.2.''))) = 3"
    unfolding week_30_feb by (simp add: dated_def ascii_def)
  have tally: "sufficiency_tally (parse_text_blocks 2026
      (ascii ''#### Mo, 3.2.#### Di, 30.2.#### Mi, 5.2.#### Do, 6.2.'')) = 3"
    using T fd by simp
  have ne: "parse_text_blocks 2026
      (ascii ''#### Mo, 3.2.#### Di, 30.2.#### Mi, 5.2.#### Do, 6.2.'') \<noteq> []"
    using len by auto
  have "fst (main xml_tag 2026
      (Some (ascii ''#### Mo, 3.2.#### Di, 30.2.#### Mi, 5.2.#### Do, 6.2.'')))
      = (if parse_text_blocks 2026
            (ascii ''#### Mo, 3.2.#### Di, 30.2.#### Mi, 5.2.#### Do, 6.2.'') = [] then 3
         else if length (filter dated (parse_text_blocks 2026
            (ascii ''#### Mo, 3.2.#### Di, 30.2.#### Mi, 5.2.#### Do, 6.2.''))) < 4 then 4 else 0)"
    using T by blast
  then have ex: "fst (main xml_tag 2026
      (Some (ascii ''#### Mo, 3.2.#### Di, 30.2.#### Mi, 5.2.#### Do, 6.2.''))) = 4"
    by (simp only: ne fd if_False) simp
  from len sp nd tally ex show ?thesis by blast
qed

text \<open>
  The claim as stated fails: in a week of four day headers of which one carries the
  date 30.2., four Days are scanned but the sufficiency tally is three, and the run
  ends with exit code 4.
\<close>

theorem C1_tally_counterexample:
  "\<not> (sufficiency_tally (parse_text_blocks 2026
          (ascii ''#### Mo, 3.2.#### Di, 30.2.#### Mi, 5.2.#### Do, 6.2.''))
        = length (parse_text_blocks 2026
          (ascii ''#### Mo, 3.2.#### Di, 30.2.#### Mi, 5.2.#### Do, 6.2.'')))"
  unfolding week_30_feb by (simp add: sufficiency_tally_def dated_def)

text \<open>
  C4. For every meal entry the price line is the first of the body lines 2 to 6 (the
  five lines after the name) that holds an amount, digits, a comma or dot, digits,
  followed after optional white space by the euro sign. A line without the euro sign,
  such as "12,34", is never the price line, and when no line of the window matches, the
  three price roles are absent.
\<close>

theorem C4_price_line_detection:
  assumes "parse_entry ent = Some m"
  shows "(\<forall>pl. find_price_line (lines_of ent) = Some pl \<longleftrightarrow>
            (\<exists>i. 1 \<le> i \<and> i \<le> 5 \<and> i < length (lines_of ent) \<and> lines_of ent ! i = pl \<and>
                 amount_euro pl \<and> (\<forall>j. 1 \<le> j \<and> j < i \<longrightarrow> \<not> amount_euro (lines_of ent ! j))))
       \<and> (find_price_line (lines_of ent) = None \<longleftrightarrow>
            (\<forall>i. 1 \<le> i \<and> i \<le> 5 \<and> i < length (lines_of ent) \<longrightarrow> \<not> amount_euro (lines_of ent ! i)))
       \<and> (\<forall>l. c_euro \<notin> set l \<longrightarrow> \<not> amount_euro l \<and> find_price_line (lines_of ent) \<noteq> Some l)
       \<and> prices m = parse_prices (find_price_line (lines_of ent))
       \<and> (find_price_line (lines_of ent) = None \<longrightarrow>
            prices m = [(ascii ''students'', None), (ascii ''employees'', None),
                        (ascii ''others'', None)])"
proof -
  have p: "prices m = parse_prices (find_price_line (lines_of ent))"
    using assms by (rule parse_entry_Some(5))
  have none: "parse_prices None = [(ascii ''students'', None), (ascii ''employees'', None),
                        (ascii ''others'', None)]"
    by (simp add: parse_prices_def part_price_def)
  have noeuro: "\<not> amount_euro l \<and> find_price_line (lines_of ent) \<noteq> Some l"
    if "c_euro \<notin> set l" for l
  proof -
    from that have n: "\<not> amount_euro l" using amount_euro_needs_euro by blast
    then have "find_price_line (lines_of ent) \<noteq> Some l"
      unfolding find_price_line_Some by blast
    with n show ?thesis by simp
  qed
  have lastc: "find_price_line (lines_of ent) = None \<longrightarrow>
            prices m = [(ascii ''students'', None), (ascii ''employees'', None),
                        (ascii ''others'', None)]"
    using p none by simp
  show ?thesis
    by (intro conjI allI impI find_price_line_Some find_price_line_None p
        conjunct1 [OF noeuro] conjunct2 [OF noeuro] lastc [rule_format])
qed

theorem C4_price_line_detection_witness:
  "\<exists>m. parse_entry (ascii ''Suppe
Linsen
12,34
3,50 '' @ [c_euro]) = Some m
     \<and> find_price_line (lines_of (ascii ''Suppe
Linsen
12,34
3,50 '' @ [c_euro])) = Some (ascii ''3,50 '' @ [c_euro])
     \<and> amount_euro (ascii ''3,50 '' @ [c_euro])
     \<and> \<not> amount_euro (ascii ''12,34'')
     \<and> prices m = parse_prices (Some (ascii ''3,50 '' @ [c_euro]))"
proof -
  define m where "m = \<lparr>category = ascii ''Suppe'', name = ascii ''Linsen'', meal_notes = [],
    allergens = [],
    prices = [(ascii ''students'', Some (Fin False 7881299347898368 (- 51))),
              (ascii ''employees'', None), (ascii ''others'', None)]\<rparr>"
  have pe: "parse_entry (ascii ''Suppe
Linsen
12,34
3,50 '' @ [c_euro]) = Some m"
    unfolding m_def by (simp add: char_defs entry_defs float_defs Let_def)
  have fl: "find_price_line (lines_of (ascii ''Suppe
Linsen
12,34
3,50 '' @ [c_euro])) = Some (ascii ''3,50 '' @ [c_euro])"
    by (simp add: char_defs entry_defs)
  have ne: "c_euro \<notin> set (ascii ''12,34'')"
    by (simp add: char_defs)
  note T = C4_price_line_detection [OF pe]
  from T fl have a: "amount_euro (ascii ''3,50 '' @ [c_euro])" by blast
  from T ne have b: "\<not> amount_euro (ascii ''12,34'')" by blast
  from T fl have c: "prices m = parse_prices (Some (ascii ''3,50 '' @ [c_euro]))" by simp
  from pe fl a b c show ?thesis by blast
qed

text \<open>
  C5 (as the code has it). Every parenthesised group found in the raw category header,
  a space and the body is split at slashes and commas; each piece is stripped and the
  empty ones are dropped, for codes as for notes. A group without a letter of the
  letter class adds its pieces to the allergen codes, a group with one adds them to the
  notes, which start with these annotation notes. "(A, C, G)" gives the notes A, C, G
  and "(2,3)" the codes 2 and 3.
\<close>

theorem C5_annotation_classification:
  assumes "parse_entry ent = Some m"
  shows "allergens m = concat (map label_parts (filter (\<lambda>l. \<not> has_letter l) (labels_of ent)))
       \<and> (\<exists>res. meal_notes m = concat (map label_parts (filter has_letter (labels_of ent))) @ res)
       \<and> (\<forall>l\<in>set (labels_of ent). \<exists>pre post.
             cat_raw_of ent @ [c_space] @ body_of ent = pre @ [c_lpar] @ l @ [c_rpar] @ post
             \<and> l \<noteq> [] \<and> c_rpar \<notin> set l)
       \<and> (\<forall>l. label_parts l = filter (\<lambda>p. p \<noteq> []) (map strip (split_on slash_or_comma l)))
       \<and> (\<forall>l. has_letter l \<longleftrightarrow> (\<exists>c\<in>set l. is_letter c))"
proof -
  have a: "allergens m = concat (map label_parts (filter (\<lambda>l. \<not> has_letter l) (labels_of ent)))"
    using parse_entry_Some(4) [OF assms] by (simp add: classify_labels_snd)
  have n: "\<exists>res. meal_notes m = concat (map label_parts (filter has_letter (labels_of ent))) @ res"
    using parse_entry_Some(3) [OF assms] add_residual_prefix
    by (simp add: classify_labels_fst)
  have l: "\<forall>l\<in>set (labels_of ent). \<exists>pre post.
             cat_raw_of ent @ [c_space] @ body_of ent = pre @ [c_lpar] @ l @ [c_rpar] @ post
             \<and> l \<noteq> [] \<and> c_rpar \<notin> set l"
    unfolding labels_of_def using find_labels_sound by blast
  have p: "\<forall>l. label_parts l = filter (\<lambda>p. p \<noteq> []) (map strip (split_on slash_or_comma l))"
    by (simp add: label_parts_def)
  have h: "\<forall>l. has_letter l \<longleftrightarrow> (\<exists>c\<in>set l. is_letter c)"
    by (simp add: has_letter_def list_ex_iff)
  from a n l p h show ?thesis by blast
qed

theorem C5_annotation_classification_witness:
  "\<exists>m. parse_entry (ascii ''Essen 1
Nudeln (A, C, G) (2,3)'') = Some m
     \<and> labels_of (ascii ''Essen 1
Nudeln (A, C, G) (2,3)'') = [ascii ''A, C, G'', ascii ''2,3'']
     \<and> allergens m = [ascii ''2'', ascii ''3'']
     \<and> meal_notes m = [ascii ''A'', ascii ''C'', ascii ''G'']"
proof -
  define m where "m = \<lparr>category = ascii ''Hauptgericht'', name = ascii ''Nudeln (A, C, G) (2,3)'',
    meal_notes = [ascii ''A'', ascii ''C'', ascii ''G''],
    allergens = [ascii ''2'', ascii ''3''],
    prices = [(ascii ''students'', None), (ascii ''employees'', None), (ascii ''others'', None)]\<rparr>"
  have pe: "parse_entry (ascii ''Essen 1
Nudeln (A, C, G) (2,3)'') = Some m"
    unfolding m_def by (simp add: char_defs entry_defs float_defs Let_def)
  have lab: "labels_of (ascii ''Essen 1
Nudeln (A, C, G) (2,3)'') = [ascii ''A, C, G'', ascii ''2,3'']"
    by (simp add: char_defs entry_defs)
  have hl: "has_letter (ascii ''A, C, G'')" "\<not> has_letter (ascii ''2,3'')"
    by (simp_all add: char_defs has_letter_def)
  have lp: "label_parts (ascii ''2,3'') = [ascii ''2'', ascii ''3'']"
    by (simp add: char_defs entry_defs)
  note T = C5_annotation_classification [OF pe]
  from T have "allergens m
      = concat (map label_parts (filter (\<lambda>l. \<not> has_letter l) (labels_of (ascii ''Essen 1
Nudeln (A, C, G) (2,3)''))))"
    by blast
  then have al: "allergens m = [ascii ''2'', ascii ''3'']"
    unfolding lab using hl lp by simp
  have nt: "meal_notes m = [ascii ''A'', ascii ''C'', ascii ''G'']"
    by (simp add: m_def)
  from pe lab al nt show ?thesis by blast
qed

text \<open>
  The claim as stated, each part of a group without letters becoming one code, fails
  where a part is empty: the group "2,,3" has three parts and gives two codes.
\<close>

theorem C5_empty_part_counterexample:
  "\<exists>m. parse_entry (ascii ''Essen 1
Nudeln (2,,3)'') = Some m
     \<and> labels_of (ascii ''Essen 1
Nudeln (2,,3)'') = [ascii ''2,,3'']
     \<and> split_on slash_or_comma (ascii ''2,,3'') = [ascii ''2'', [], ascii ''3'']
     \<and> allergens m = [ascii ''2'', ascii ''3'']
     \<and> length (allergens m) \<noteq> length (split_on slash_or_comma (ascii ''2,,3''))"
proof -
  define m where "m = \<lparr>category = ascii ''Hauptgericht'', name = ascii ''Nudeln (2,,3)'',
    meal_notes = [], allergens = [ascii ''2'', ascii ''3''],
    prices = [(ascii ''students'', None), (ascii ''employees'', None), (ascii ''others'', None)]\<rparr>"
  have pe: "parse_entry (ascii ''Essen 1
Nudeln (2,,3)'') = Some m"
    unfolding m_def by (simp add: char_defs entry_defs float_defs Let_def)
  have lab: "labels_of (ascii ''Essen 1
Nudeln (2,,3)'') = [ascii ''2,,3'']"
    by (simp add: char_defs entry_defs)
  have sp: "split_on slash_or_comma (ascii ''2,,3'') = [ascii ''2'', [], ascii ''3'']"
    by (simp add: char_defs)
  have al: "allergens m = [ascii ''2'', ascii ''3'']" by (simp add: m_def)
  from pe lab sp al show ?thesis by simp
qed

text \<open>
  C6 (as the code has it). The notes of a meal are the annotation notes followed by the
  residual lines: the body lines after the name that differ from the price line, are
  not made of digits, white space, commas, slashes and parentheses only, and are not
  among the notes already; they keep the order of the lines and none occurs twice. The
  annotation notes themselves are taken as they come.
\<close>

theorem C6_notes_order_and_residual_dedup:
  assumes "parse_entry ent = Some m"
  shows "\<exists>res. meal_notes m = concat (map label_parts (filter has_letter (labels_of ent))) @ res
       \<and> distinct res
       \<and> set res \<inter> set (concat (map label_parts (filter has_letter (labels_of ent)))) = {}
       \<and> set res = {l \<in> set (tl (lines_of ent)).
                      Some l \<noteq> find_price_line (lines_of ent) \<and> \<not> structural_line l}
                   - set (concat (map label_parts (filter has_letter (labels_of ent))))
       \<and> subseq res (tl (lines_of ent))
       \<and> (\<forall>l. structural_line l \<longleftrightarrow> l \<noteq> [] \<and>
             (\<forall>c\<in>set l. is_digit c \<or> c = c_comma \<or> is_space c \<or> c = c_slash
                          \<or> c = c_lpar \<or> c = c_rpar))"
proof -
  have s: "\<forall>l. structural_line l \<longleftrightarrow> l \<noteq> [] \<and>
             (\<forall>c\<in>set l. is_digit c \<or> c = c_comma \<or> is_space c \<or> c = c_slash
                          \<or> c = c_lpar \<or> c = c_rpar)"
    by (simp add: structural_line_def structural_char_def list_all_iff)
  have n: "meal_notes m = add_residual (find_price_line (lines_of ent))
      (concat (map label_parts (filter has_letter (labels_of ent)))) (tl (lines_of ent))"
    using parse_entry_Some(3) [OF assms] by (simp add: classify_labels_fst)
  from add_residual_shape [of "find_price_line (lines_of ent)"
      "concat (map label_parts (filter has_letter (labels_of ent)))" "tl (lines_of ent)"]
  show ?thesis unfolding n using s by blast
qed

theorem C6_notes_order_and_residual_dedup_witness:
  "\<exists>m res. parse_entry (ascii ''Suppe (vegan)
Linsen
mit Brot
(1,2)
mit Brot
vegan
2,50 '' @ [c_euro]) = Some m
     \<and> meal_notes m = [ascii ''vegan'', ascii ''mit Brot'']
     \<and> meal_notes m = [ascii ''vegan''] @ res \<and> distinct res
     \<and> subseq res [ascii ''mit Brot'', ascii ''(1,2)'', ascii ''mit Brot'', ascii ''vegan'',
                     ascii ''2,50 '' @ [c_euro]]"
proof -
  define m where "m = \<lparr>category = ascii ''Suppe (vegan)'', name = ascii ''Linsen'',
    meal_notes = [ascii ''vegan'', ascii ''mit Brot''],
    allergens = [ascii ''1'', ascii ''2''],
    prices = [(ascii ''students'', Some (Fin False 5629499534213120 (- 51))),
              (ascii ''employees'', None), (ascii ''others'', None)]\<rparr>"
  have pe: "parse_entry (ascii ''Suppe (vegan)
Linsen
mit Brot
(1,2)
mit Brot
vegan
2,50 '' @ [c_euro]) = Some m"
    unfolding m_def by (simp add: char_defs entry_defs float_defs Let_def)
  have lab: "concat (map label_parts (filter has_letter (labels_of (ascii ''Suppe (vegan)
Linsen
mit Brot
(1,2)
mit Brot
vegan
2,50 '' @ [c_euro])))) = [ascii ''vegan'']"
    by (simp add: char_defs entry_defs)
  have ls: "tl (lines_of (ascii ''Suppe (vegan)
Linsen
mit Brot
(1,2)
mit Brot
vegan
2,50 '' @ [c_euro])) = [ascii ''mit Brot'', ascii ''(1,2)'', ascii ''mit Brot'', ascii ''vegan'',
                     ascii ''2,50 '' @ [c_euro]]"
    by (simp add: char_defs entry_defs)
  have nt: "meal_notes m = [ascii ''vegan'', ascii ''mit Brot'']" by (simp add: m_def)
  from C6_notes_order_and_residual_dedup [OF pe]
  obtain res where "meal_notes m = [ascii ''vegan''] @ res" "distinct res"
    "subseq res [ascii ''mit Brot'', ascii ''(1,2)'', ascii ''mit Brot'', ascii ''vegan'',
                     ascii ''2,50 '' @ [c_euro]]"
    unfolding lab ls by blast
  with pe nt show ?thesis by blast
qed

text \<open>
  The claim as stated, no duplicates in the notes, fails for annotation notes: two
  groups "(vegan)" give the note twice.
\<close>

theorem C6_duplicate_annotation_counterexample:
  "\<exists>m. parse_entry (ascii ''Essen 1
Nudeln (vegan) (vegan)'') = Some m
     \<and> meal_notes m = [ascii ''vegan'', ascii ''vegan'']
     \<and> \<not> distinct (meal_notes m)"
proof -
  define m where "m = \<lparr>category = ascii ''Hauptgericht'', name = ascii ''Nudeln (vegan) (vegan)'',
    meal_notes = [ascii ''vegan'', ascii ''vegan''], allergens = [],
    prices = [(ascii ''students'', None), (ascii ''employees'', None), (ascii ''others'', None)]\<rparr>"
  have pe: "parse_entry (ascii ''Essen 1
Nudeln (vegan) (vegan)'') = Some m"
    unfolding m_def by (simp add: char_defs entry_defs float_defs Let_def)
  have "meal_notes m = [ascii ''vegan'', ascii ''vegan'']" by (simp add: m_def)
  with pe show ?thesis by auto
qed

text \<open>
  C2. The year inference looks for the leftmost place where the text continues with a
  date range, two dates of one or two digits for day and month and four for the year,
  with a hyphen between them and optional white space around it. If there is none, the
  result is the current year. If there is one and its first date is a valid day-first
  date (a day that exists in the month, a year of at least 1), the result is the year
  \<open>Y\<close> of that date; if the first date of that leftmost range does not parse, the
  result is the current year again.
\<close>

theorem C2_year_inference:
  "(\<forall>g d. search_range text = Some g \<and> strptime g = Some d \<longrightarrow>
       extract_year_from_text now_year text = year d)
   \<and> (search_range text = None \<longrightarrow> extract_year_from_text now_year text = now_year)
   \<and> (\<forall>g. search_range text = Some g \<and> strptime g = None \<longrightarrow>
       extract_year_from_text now_year text = now_year)
   \<and> (search_range text = None \<longleftrightarrow>
       (\<forall>pre rest g. text = pre @ rest \<longrightarrow> \<not> range_prefix rest g))
   \<and> (\<forall>g. search_range text = Some g \<longrightarrow>
       (\<exists>pre rest. text = pre @ rest \<and> range_prefix rest g \<and>
          (\<forall>pre' rest' g'. text = pre' @ rest' \<and> length pre' < length pre \<longrightarrow>
             \<not> range_prefix rest' g')))
   \<and> (\<forall>dd mm y d. strptime (dd @ [c_dot] @ mm @ [c_dot] @ y) = Some d \<and> dm_field dd \<and> dm_field mm
       \<longrightarrow> year d = digits_val y \<and> length y = 4 \<and> list_all is_digit y \<and> 1 \<le> year d
           \<and> day_field dd = Some (day d) \<and> month_field mm = Some (month d)
           \<and> day d \<le> days_in_month (year d) (month d))"
proof -
  have a: "\<forall>g d. search_range text = Some g \<and> strptime g = Some d \<longrightarrow>
       extract_year_from_text now_year text = year d"
    by (simp add: extract_year_from_text_def)
  have b: "search_range text = None \<longrightarrow> extract_year_from_text now_year text = now_year"
    by (simp add: extract_year_from_text_def)
  have c: "\<forall>g. search_range text = Some g \<and> strptime g = None \<longrightarrow>
       extract_year_from_text now_year text = now_year"
    by (simp add: extract_year_from_text_def)
  have d: "search_range text = None \<longleftrightarrow>
       (\<forall>pre rest g. text = pre @ rest \<longrightarrow> \<not> range_prefix rest g)"
    by (rule search_range_None)
  have e: "\<forall>g. search_range text = Some g \<longrightarrow>
       (\<exists>pre rest. text = pre @ rest \<and> range_prefix rest g \<and>
          (\<forall>pre' rest' g'. text = pre' @ rest' \<and> length pre' < length pre \<longrightarrow>
             \<not> range_prefix rest' g'))"
    using search_range_Some by blast
  have f: "\<forall>dd mm y d. strptime (dd @ [c_dot] @ mm @ [c_dot] @ y) = Some d \<and> dm_field dd \<and> dm_field mm
       \<longrightarrow> year d = digits_val y \<and> length y = 4 \<and> list_all is_digit y \<and> 1 \<le> year d
           \<and> day_field dd = Some (day d) \<and> month_field mm = Some (month d)
           \<and> day d \<le> days_in_month (year d) (month d)"
    using strptime_year by blast
  from a b c d e f show ?thesis by (intro conjI)
qed

theorem C2_year_inference_witness:
  "extract_year_from_text 2026 (ascii ''Woche 3.2.2025 - 7.2.2025'') = 2025
   \<and> extract_year_from_text 2026 (ascii ''Speiseplan'') = 2026
   \<and> extract_year_from_text 2026 (ascii ''99.1.2024 - 1.1.2025'') = 2026
   \<and> \<not> range_prefix (ascii ''Speiseplan'') (ascii ''3.2.2025'')
   \<and> extract_year_from_text 2026
        (ascii ''3.2.'' @ [1634, 1632, 1634, 1637] @ ascii '' - 7.2.2025'') = 2025"
proof -
  have sr1: "search_range (ascii ''Woche 3.2.2025 - 7.2.2025'') = Some (ascii ''3.2.2025'')"
    and sr2: "search_range (ascii ''Speiseplan'') = None"
    and sr3: "search_range (ascii ''99.1.2024 - 1.1.2025'') = Some (ascii ''99.1.2024'')"
    by (simp_all add: char_defs date_defs)
  have sp1: "strptime (ascii ''3.2.2025'') = Some \<lparr>year = 2025, month = 2, day = 3\<rparr>"
    and sp3: "strptime (ascii ''99.1.2024'') = None"
    by (simp_all add: char_defs date_defs)
  note T1 = C2_year_inference [of "ascii ''Woche 3.2.2025 - 7.2.2025''" 2026]
  note T2 = C2_year_inference [of "ascii ''Speiseplan''" 2026]
  note T3 = C2_year_inference [of "ascii ''99.1.2024 - 1.1.2025''" 2026]
  from T1 have "search_range (ascii ''Woche 3.2.2025 - 7.2.2025'') = Some (ascii ''3.2.2025'')
      \<and> strptime (ascii ''3.2.2025'') = Some \<lparr>year = 2025, month = 2, day = 3\<rparr> \<longrightarrow>
      extract_year_from_text 2026 (ascii ''Woche 3.2.2025 - 7.2.2025'')
        = year \<lparr>year = 2025, month = 2, day = 3\<rparr>"
    by blast
  with sr1 sp1 have a: "extract_year_from_text 2026 (ascii ''Woche 3.2.2025 - 7.2.2025'') = 2025"
    by simp
  from T2 sr2 have b: "extract_year_from_text 2026 (ascii ''Speiseplan'') = 2026"
    by blast
  from T3 sr3 sp3 have c: "extract_year_from_text 2026 (ascii ''99.1.2024 - 1.1.2025'') = 2026"
    by blast
  from T2 sr2 have "\<forall>pre rest g. ascii ''Speiseplan'' = pre @ rest \<longrightarrow> \<not> range_prefix rest g"
    by blast
  then have d: "\<not> range_prefix (ascii ''Speiseplan'') (ascii ''3.2.2025'')"
    using append_Nil [of "ascii ''Speiseplan''"] by metis
  have sr4: "search_range (ascii ''3.2.'' @ [1634, 1632, 1634, 1637] @ ascii '' - 7.2.2025'')
      = Some (ascii ''3.2.'' @ [1634, 1632, 1634, 1637])"
    by (simp add: char_defs date_defs uni_defs)
  have sp4: "strptime (ascii ''3.2.'' @ [1634, 1632, 1634, 1637])
      = Some \<lparr>year = 2025, month = 2, day = 3\<rparr>"
    by (simp add: char_defs date_defs uni_defs)
  from C2_year_inference
      [of "ascii ''3.2.'' @ [1634, 1632, 1634, 1637] @ ascii '' - 7.2.2025''" 2026]
  have "search_range (ascii ''3.2.'' @ [1634, 1632, 1634, 1637] @ ascii '' - 7.2.2025'')
        = Some (ascii ''3.2.'' @ [1634, 1632, 1634, 1637])
      \<and> strptime (ascii ''3.2.'' @ [1634, 1632, 1634, 1637])
        = Some \<lparr>year = 2025, month = 2, day = 3\<rparr> \<longrightarrow>
      extract_year_from_text 2026
        (ascii ''3.2.'' @ [1634, 1632, 1634, 1637] @ ascii '' - 7.2.2025'')
        = year \<lparr>year = 2025, month = 2, day = 3\<rparr>"
    by blast
  with sr4 sp4 have e: "extract_year_from_text 2026
        (ascii ''3.2.'' @ [1634, 1632, 1634, 1637] @ ascii '' - 7.2.2025'') = 2025"
    by simp
  from a b c d e show ?thesis by blast
qed

end
